theory Spec2Isabelle
  imports Complex_Main "HOL-Library.Sublist" "HOL-Library.Multiset" "HOL-Library.AList"
begin

section \<open>JavaScript values and the built-ins that app.js calls\<close>

text \<open>
  The program is untyped: what it reads from the chunk files and from localStorage is
  whatever \<^verbatim>\<open>JSON.parse\<close> returned. The values are modelled as they are at run time.
  Scope of the value model:
  \<^item> numbers are the integers of magnitude at most \<open>2 ^ 53\<close>, which a double holds exactly
    (indices, timestamps); a JSON number with a fraction or an exponent is outside it;
  \<^item> strings are sequences of code units below 256 (\<open>char\<close> is 8 bits wide);
  \<^item> objects are property lists in insertion order; a key that looks like an array
    index, which a JavaScript object would order first, is outside the model;
  \<^item> equality of values is structural: that is \<^verbatim>\<open>===\<close> and SameValueZero on
    primitives; JavaScript compares objects and arrays by reference instead.
  Where a built-in meets an input outside this scope, the model answers \<open>Unsupported\<close>,
  which is no JavaScript outcome: the model says nothing about such a run.
\<close>

datatype jsval =
    Undefined
  | Null
  | Bool bool
  | Num int
  | Str string
  | Arr "jsval list"
  | Obj "(string \<times> jsval) list"

datatype error = SyntaxError | TypeError | NetworkError | Error string | Unsupported

text \<open>ToBoolean: \<^verbatim>\<open>undefined\<close>, \<^verbatim>\<open>null\<close>, \<^verbatim>\<open>false\<close>, \<^verbatim>\<open>0\<close> and \<^verbatim>\<open>""\<close> are falsy.\<close>

fun truthy :: "jsval \<Rightarrow> bool" where
  "truthy Undefined = False"
| "truthy Null = False"
| "truthy (Bool b) = b"
| "truthy (Num n) = (n \<noteq> 0)"
| "truthy (Str s) = (s \<noteq> [])"
| "truthy (Arr xs) = True"
| "truthy (Obj kvs) = True"

text \<open>\<^verbatim>\<open>a || b\<close> on operands whose evaluation has no effect.\<close>

definition js_or :: "jsval \<Rightarrow> jsval \<Rightarrow> jsval" where
  "js_or a b = (if truthy a then a else b)"

fun is_number :: "jsval \<Rightarrow> bool" where
  "is_number (Num n) = True"
| "is_number v = False"

text \<open>
  \<^verbatim>\<open>x.k\<close> for the property names of this program (\<^verbatim>\<open>uId\<close>, \<^verbatim>\<open>chunks\<close>, \<^verbatim>\<open>path\<close>, ...):
  none is a built-in property of arrays, strings, numbers or booleans, so only an
  object can have it; on \<^verbatim>\<open>null\<close> and \<^verbatim>\<open>undefined\<close> the access throws.
\<close>

fun get_prop :: "jsval \<Rightarrow> string \<Rightarrow> error + jsval" where
  "get_prop Undefined k = Inl TypeError"
| "get_prop Null k = Inl TypeError"
| "get_prop (Obj kvs) k = Inr (case map_of kvs k of None \<Rightarrow> Undefined | Some v \<Rightarrow> v)"
| "get_prop v k = Inr Undefined"

text \<open>The same access where the receiver is known not to be \<^verbatim>\<open>null\<close> or \<^verbatim>\<open>undefined\<close>.\<close>

definition field :: "jsval \<Rightarrow> string \<Rightarrow> jsval" where
  "field x k = (case get_prop x k of Inl e \<Rightarrow> Undefined | Inr v \<Rightarrow> v)"

text \<open>Iteration (\<^verbatim>\<open>for ... of\<close>, spread, the argument of \<^verbatim>\<open>new Set\<close>).\<close>

fun js_iter :: "jsval \<Rightarrow> error + jsval list" where
  "js_iter (Arr xs) = Inr xs"
| "js_iter (Str s) = Inr (map (\<lambda>c. Str [c]) s)"
| "js_iter v = Inl TypeError"

subsection \<open>Strings\<close>

definition toLowerCase_char :: "char \<Rightarrow> char" where
  "toLowerCase_char c =
     (let n = (of_char c :: nat)
      in if (65 \<le> n \<and> n \<le> 90) \<or> (192 \<le> n \<and> n \<le> 222 \<and> n \<noteq> 215)
         then char_of (n + 32) else c)"

definition toLowerCase :: "string \<Rightarrow> string" where
  "toLowerCase s = map toLowerCase_char s"

text \<open>
  \<^verbatim>\<open>v.toLowerCase()\<close> on a value: only strings have the method; on anything else the
  call throws a TypeError.
\<close>

fun toLowerCase_of :: "jsval \<Rightarrow> error + string" where
  "toLowerCase_of (Str s) = Inr (toLowerCase s)"
| "toLowerCase_of v = Inl TypeError"

text \<open>White space and line terminators below 256, as \<^verbatim>\<open>trim\<close> strips them.\<close>

definition is_space :: "char \<Rightarrow> bool" where
  "is_space c = (of_char c \<in> {9, 10, 11, 12, 13, 32, 160 :: nat})"

definition trim :: "string \<Rightarrow> string" where
  "trim s = rev (dropWhile is_space (rev (dropWhile is_space s)))"

fun js_includes :: "string \<Rightarrow> string \<Rightarrow> bool" where
  "js_includes [] sub = (sub = [])"
| "js_includes (c # cs) sub = (prefix sub (c # cs) \<or> js_includes cs sub)"

fun join :: "string \<Rightarrow> string list \<Rightarrow> string" where
  "join sep [] = []"
| "join sep [x] = x"
| "join sep (x # y # ys) = x @ sep @ join sep (y # ys)"

definition digit_char :: "nat \<Rightarrow> char" where
  "digit_char d = ''0123456789abcdef'' ! d"

text \<open>The decimal digits of an integer, as Number's ToString writes an integer.\<close>

function show_pos :: "int \<Rightarrow> string" where
  "show_pos n =
     (if n < 10 then [digit_char (nat n)]
      else show_pos (n div 10) @ [digit_char (nat (n mod 10))])"
  by pat_completeness auto
termination
  by (relation "measure nat") auto

declare show_pos.simps [simp del]

definition show_int :: "int \<Rightarrow> string" where
  "show_int n = (if n < 0 then CHR ''-'' # show_pos (- n) else show_pos n)"

text \<open>ToString, as a template literal applies it.\<close>

fun js_to_string :: "jsval \<Rightarrow> string" where
  "js_to_string Undefined = ''undefined''"
| "js_to_string Null = ''null''"
| "js_to_string (Bool b) = (if b then ''true'' else ''false'')"
| "js_to_string (Num n) = show_int n"
| "js_to_string (Str s) = s"
| "js_to_string (Arr xs) =
     join '','' (map (\<lambda>x. if x = Undefined \<or> x = Null then [] else js_to_string x) xs)"
| "js_to_string (Obj kvs) = ''[object Object]''"

subsection \<open>Arrays\<close>

text \<open>
  \<^verbatim>\<open>arr.slice(start, end)\<close> and \<^verbatim>\<open>arr.slice(start)\<close>: a negative index counts from the
  end, both are clamped to the array, and the result is a new array.
\<close>

definition rel_index :: "int \<Rightarrow> int \<Rightarrow> int" where
  "rel_index len i = (if i < 0 then max (len + i) 0 else min i len)"

definition js_slice :: "'a list \<Rightarrow> int \<Rightarrow> int \<Rightarrow> 'a list" where
  "js_slice xs start end' =
     (let len = int (length xs); k = rel_index len start; final = rel_index len end'
      in take (nat (max (final - k) 0)) (drop (nat k) xs))"

definition js_slice_from :: "'a list \<Rightarrow> int \<Rightarrow> 'a list" where
  "js_slice_from xs start = js_slice xs start (int (length xs))"

subsection \<open>Set\<close>

text \<open>
  A \<^verbatim>\<open>Set\<close> keeps its elements in insertion order; \<^verbatim>\<open>Array.from(set)\<close> is that order.
  It is modelled by the list of its elements.
\<close>

definition Set_has :: "jsval list \<Rightarrow> jsval \<Rightarrow> bool" where
  "Set_has xs x = (x \<in> set xs)"

definition Set_add :: "jsval list \<Rightarrow> jsval \<Rightarrow> jsval list" where
  "Set_add xs x = (if x \<in> set xs then xs else xs @ [x])"

definition Set_delete :: "jsval list \<Rightarrow> jsval \<Rightarrow> jsval list" where
  "Set_delete xs x = removeAll x xs"

text \<open>\<^verbatim>\<open>new Set(v)\<close>: empty for \<^verbatim>\<open>null\<close> and \<^verbatim>\<open>undefined\<close>, else \<open>v\<close> is iterated.\<close>

definition Set_new :: "jsval \<Rightarrow> error + jsval list" where
  "Set_new v =
     (if v = Undefined \<or> v = Null then Inr []
      else case js_iter v of Inl e \<Rightarrow> Inl e | Inr xs \<Rightarrow> Inr (foldl Set_add [] xs))"

subsection \<open>JSON.stringify\<close>

definition quote_char :: "char \<Rightarrow> string" where
  "quote_char c =
     (let n = (of_char c :: nat)
      in if n = 34 then [CHR 0x5C, CHR 0x22]
         else if n = 92 then [CHR 0x5C, CHR 0x5C]
         else if n = 8 then [CHR 0x5C, CHR ''b'']
         else if n = 9 then [CHR 0x5C, CHR ''t'']
         else if n = 10 then [CHR 0x5C, CHR ''n'']
         else if n = 12 then [CHR 0x5C, CHR ''f'']
         else if n = 13 then [CHR 0x5C, CHR ''r'']
         else if n < 32 then [CHR 0x5C, CHR ''u'', CHR ''0'', CHR ''0'',
                              digit_char (n div 16), digit_char (n mod 16)]
         else [c])"

definition quote :: "string \<Rightarrow> string" where
  "quote s = CHR 0x22 # concat (map quote_char s) @ [CHR 0x22]"

text \<open>
  The serialisation of a value, \<open>None\<close> where \<^verbatim>\<open>JSON.stringify\<close> returns \<^verbatim>\<open>undefined\<close>:
  an \<^verbatim>\<open>undefined\<close> element of an array is written \<^verbatim>\<open>null\<close>, an \<^verbatim>\<open>undefined\<close> property is
  left out.
\<close>

fun JSON_stringify :: "jsval \<Rightarrow> string option" where
  "JSON_stringify Undefined = None"
| "JSON_stringify Null = Some ''null''"
| "JSON_stringify (Bool b) = Some (if b then ''true'' else ''false'')"
| "JSON_stringify (Num n) = Some (show_int n)"
| "JSON_stringify (Str s) = Some (quote s)"
| "JSON_stringify (Arr xs) =
     Some (''['' @ join '',''
       (map (\<lambda>x. case JSON_stringify x of None \<Rightarrow> ''null'' | Some s \<Rightarrow> s) xs) @ '']'')"
| "JSON_stringify (Obj kvs) =
     Some (''{'' @ join '',''
       (concat (map (\<lambda>(k, v). case JSON_stringify v of None \<Rightarrow> []
                                 | Some s \<Rightarrow> [quote k @ '':'' @ s]) kvs)) @ ''}'')"

subsection \<open>JSON.parse\<close>

text \<open>
  The JSON grammar: white space is tab, line feed, carriage return and space; a value
  is an object, an array, a string, a number or one of the three literals; a text is
  one value between optional white space. A text that is not of the grammar throws a
  SyntaxError. The nesting of arrays and objects is followed with fuel, one unit for
  each value and each element. \<open>JSON_parse\<close> gives twice the length of the text and
  one more, which is enough: with more fuel the result is the same (\<open>JSON_parse_fuel\<close>).
\<close>

definition is_ws :: "char \<Rightarrow> bool" where
  "is_ws c = (of_char c \<in> {9, 10, 13, 32 :: nat})"

definition skip_ws :: "string \<Rightarrow> string" where
  "skip_ws s = dropWhile is_ws s"

definition is_digit :: "char \<Rightarrow> bool" where
  "is_digit c = (48 \<le> (of_char c :: nat) \<and> (of_char c :: nat) \<le> 57)"

definition digits_val :: "string \<Rightarrow> int" where
  "digits_val ds = foldl (\<lambda>a c. 10 * a + (of_char c - 48)) 0 ds"

definition hex_val :: "char \<Rightarrow> nat option" where
  "hex_val c =
     (let n = (of_char c :: nat)
      in if 48 \<le> n \<and> n \<le> 57 then Some (n - 48)
         else if 65 \<le> n \<and> n \<le> 70 then Some (n - 55)
         else if 97 \<le> n \<and> n \<le> 102 then Some (n - 87)
         else None)"

text \<open>The character a backslash escape stands for (\<^verbatim>\<open>\u\<close> apart).\<close>

definition unescape :: "char \<Rightarrow> char option" where
  "unescape e =
     (if e = CHR 0x22 \<or> e = CHR 0x5C \<or> e = CHR ''/'' then Some e
      else if e = CHR ''b'' then Some (CHR 0x08)
      else if e = CHR ''f'' then Some (CHR 0x0C)
      else if e = CHR ''n'' then Some (CHR 0x0A)
      else if e = CHR ''r'' then Some (CHR 0x0D)
      else if e = CHR ''t'' then Some (CHR 0x09)
      else None)"

definition cons_result :: "char \<Rightarrow> error + string \<times> string \<Rightarrow> error + string \<times> string" where
  "cons_result c r = (case r of Inl e \<Rightarrow> Inl e | Inr (s, rest) \<Rightarrow> Inr (c # s, rest))"

text \<open>The characters of a string, after its opening quote; the rest of the text is returned.\<close>

fun parse_string :: "string \<Rightarrow> error + string \<times> string" where
  "parse_string [] = Inl SyntaxError"
| "parse_string (c # cs) =
     (if c = CHR 0x22 then Inr ([], cs)
      else if c = CHR 0x5C then
        (case cs of
           [] \<Rightarrow> Inl SyntaxError
         | e # r \<Rightarrow>
             if e = CHR ''u'' then
               (case map hex_val (take 4 r) of
                  [Some a, Some b, Some h, Some l] \<Rightarrow>
                    if a = 0 \<and> b = 0 then cons_result (char_of (16 * h + l)) (parse_string (drop 4 r))
                    else Inl Unsupported
                | _ \<Rightarrow> Inl SyntaxError)
             else (case unescape e of
                     None \<Rightarrow> Inl SyntaxError
                   | Some x \<Rightarrow> cons_result x (parse_string r)))
      else if (of_char c :: nat) < 32 then Inl SyntaxError
      else cons_result c (parse_string cs))"

text \<open>
  A number: an optional minus, an integer part without a leading zero, an optional
  fraction and an optional exponent. The grammar is checked in full; the value is
  given for the integers of the model only.
\<close>

definition scan_int :: "string \<Rightarrow> (string \<times> string) option" where
  "scan_int s =
     (case s of
        [] \<Rightarrow> None
      | c # r \<Rightarrow>
          if c = CHR ''0'' then Some ([c], r)
          else if is_digit c then Some (takeWhile is_digit s, dropWhile is_digit s)
          else None)"

definition scan_frac :: "string \<Rightarrow> (bool \<times> string) option" where
  "scan_frac s =
     (case s of
        [] \<Rightarrow> Some (False, s)
      | c # r \<Rightarrow>
          if c = CHR ''.'' then
            (if takeWhile is_digit r = [] then None else Some (True, dropWhile is_digit r))
          else Some (False, s))"

definition scan_exp :: "string \<Rightarrow> (bool \<times> string) option" where
  "scan_exp s =
     (case s of
        [] \<Rightarrow> Some (False, s)
      | c # r \<Rightarrow>
          if c = CHR ''e'' \<or> c = CHR ''E'' then
            (let r' = (case r of [] \<Rightarrow> r
                       | sg # t \<Rightarrow> if sg = CHR ''+'' \<or> sg = CHR ''-'' then t else r)
             in if takeWhile is_digit r' = [] then None else Some (True, dropWhile is_digit r'))
          else Some (False, s))"

definition parse_number :: "string \<Rightarrow> error + jsval \<times> string" where
  "parse_number s =
     (let neg = (s \<noteq> [] \<and> hd s = CHR ''-'');
          s1 = (if neg then tl s else s)
      in case scan_int s1 of
           None \<Rightarrow> Inl SyntaxError
         | Some (ds, r1) \<Rightarrow>
             (case scan_frac r1 of
                None \<Rightarrow> Inl SyntaxError
              | Some (fr, r2) \<Rightarrow>
                  (case scan_exp r2 of
                     None \<Rightarrow> Inl SyntaxError
                   | Some (ex, r3) \<Rightarrow>
                       if fr \<or> ex \<or> 9007199254740992 < digits_val ds then Inl Unsupported
                       else Inr (Num (if neg then - digits_val ds else digits_val ds), r3))))"

text \<open>A key made of digits only: JavaScript orders array indices before the other keys.\<close>

definition index_like :: "string \<Rightarrow> bool" where
  "index_like k = (k \<noteq> [] \<and> list_all is_digit k)"

fun parse_value :: "nat \<Rightarrow> string \<Rightarrow> error + jsval \<times> string"
  and parse_elements :: "nat \<Rightarrow> jsval list \<Rightarrow> string \<Rightarrow> error + jsval \<times> string"
  and parse_members :: "nat \<Rightarrow> (string \<times> jsval) list \<Rightarrow> string \<Rightarrow> error + jsval \<times> string"
where
  "parse_value 0 s = Inl Unsupported"
| "parse_value (Suc n) s =
     (case skip_ws s of
        [] \<Rightarrow> Inl SyntaxError
      | c # cs \<Rightarrow>
          if c = CHR 0x22 then
            (case parse_string cs of Inl e \<Rightarrow> Inl e | Inr (str, r) \<Rightarrow> Inr (Str str, r))
          else if c = CHR ''['' then
            (case skip_ws cs of
               [] \<Rightarrow> Inl SyntaxError
             | d # r \<Rightarrow> if d = CHR '']'' then Inr (Arr [], r) else parse_elements n [] cs)
          else if c = CHR ''{'' then
            (case skip_ws cs of
               [] \<Rightarrow> Inl SyntaxError
             | d # r \<Rightarrow> if d = CHR ''}'' then Inr (Obj [], r) else parse_members n [] cs)
          else if take 4 (c # cs) = ''true'' then Inr (Bool True, drop 3 cs)
          else if take 5 (c # cs) = ''false'' then Inr (Bool False, drop 4 cs)
          else if take 4 (c # cs) = ''null'' then Inr (Null, drop 3 cs)
          else if c = CHR ''-'' \<or> is_digit c then parse_number (c # cs)
          else Inl SyntaxError)"
| "parse_elements 0 acc s = Inl Unsupported"
| "parse_elements (Suc n) acc s =
     (case parse_value n s of
        Inl e \<Rightarrow> Inl e
      | Inr (v, r) \<Rightarrow>
          (case skip_ws r of
             [] \<Rightarrow> Inl SyntaxError
           | d # r' \<Rightarrow>
               if d = CHR '','' then parse_elements n (acc @ [v]) r'
               else if d = CHR '']'' then Inr (Arr (acc @ [v]), r')
               else Inl SyntaxError))"
| "parse_members 0 acc s = Inl Unsupported"
| "parse_members (Suc n) acc s =
     (case skip_ws s of
        [] \<Rightarrow> Inl SyntaxError
      | c # cs \<Rightarrow>
          if c \<noteq> CHR 0x22 then Inl SyntaxError
          else
            (case parse_string cs of
               Inl e \<Rightarrow> Inl e
             | Inr (k, r) \<Rightarrow>
                 (case skip_ws r of
                    [] \<Rightarrow> Inl SyntaxError
                  | d # r1 \<Rightarrow>
                      if d \<noteq> CHR '':'' then Inl SyntaxError
                      else
                        (case parse_value n r1 of
                           Inl e \<Rightarrow> Inl e
                         | Inr (v, r2) \<Rightarrow>
                             if index_like k then Inl Unsupported
                             else
                               (case skip_ws r2 of
                                  [] \<Rightarrow> Inl SyntaxError
                                | d' # r3 \<Rightarrow>
                                    if d' = CHR '','' then parse_members n (AList.update k v acc) r3
                                    else if d' = CHR ''}'' then Inr (Obj (AList.update k v acc), r3)
                                    else Inl SyntaxError)))))"

definition JSON_parse :: "string \<Rightarrow> error + jsval" where
  "JSON_parse t =
     (case parse_value (Suc (2 * length t)) t of
        Inl e \<Rightarrow> Inl e
      | Inr (v, r) \<Rightarrow> if skip_ws r = [] then Inr v else Inl SyntaxError)"

section \<open>The application state (app.js, lines 9 to 17)\<close>

text \<open>A normalized question: the object literal that \<^verbatim>\<open>main\<close> builds for each raw record.\<close>

record question =
  uId :: jsval
  questionId :: jsval
  module :: jsval
  primary_class_cd_desc :: jsval
  skill_cd :: jsval
  skill_desc :: jsval
  difficulty :: jsval
  score_band_range_cd :: jsval
  stem_html :: jsval
  choices :: jsval
  correct_choice_index :: jsval
  explanation_html :: jsval

text \<open>
  The global \<^verbatim>\<open>state\<close> object (its \<^verbatim>\<open>worker\<close> field is never used). The page and the page
  size are integers throughout: the page starts at 1 and only moves by one.
\<close>

record state =
  questions :: "question list"
  filtered :: "question list"
  pageSize :: int
  page :: int
  starred :: "jsval list"
  history :: jsval

type_synonym storage = "string \<rightharpoonup> string"

text \<open>What the handlers read and write: the state object and the browser's localStorage.\<close>

record world =
  app :: state
  localStorage :: storage

text \<open>\<^verbatim>\<open>localStorage.getItem(k) || d\<close>: a missing key reads as \<^verbatim>\<open>null\<close>, and \<^verbatim>\<open>""\<close> is falsy too.\<close>

definition getItem_or :: "storage \<Rightarrow> string \<Rightarrow> string \<Rightarrow> string" where
  "getItem_or ls k d = (case ls k of None \<Rightarrow> d | Some v \<Rightarrow> if v = [] then d else v)"

text \<open>
  \<^verbatim>\<open>localStorage.setItem(k, JSON.stringify(v))\<close>: the argument is converted to a string, so
  an \<^verbatim>\<open>undefined\<close> result is stored as the text \<^verbatim>\<open>undefined\<close>. The write is taken to succeed
  (the storage quota is not modelled).
\<close>

definition stored_json :: "jsval \<Rightarrow> string" where
  "stored_json v = (case JSON_stringify v of None \<Rightarrow> ''undefined'' | Some t \<Rightarrow> t)"

definition setItem :: "storage \<Rightarrow> string \<Rightarrow> string \<Rightarrow> storage" where
  "setItem ls k v = ls(k \<mapsto> v)"

text \<open>
  The initializer of \<^verbatim>\<open>state\<close>, evaluated when the script is loaded. Neither
  \<^verbatim>\<open>JSON.parse\<close> nor \<^verbatim>\<open>new Set\<close> is inside a \<^verbatim>\<open>try\<close>: what they throw ends the script.
\<close>

definition init_state :: "storage \<Rightarrow> error + state" where
  "init_state ls =
     (case JSON_parse (getItem_or ls ''starred'' ''[]'') of
        Inl e \<Rightarrow> Inl e
      | Inr a \<Rightarrow>
          (case Set_new a of
             Inl e \<Rightarrow> Inl e
           | Inr st \<Rightarrow>
               (case JSON_parse (getItem_or ls ''history'' ''[]'') of
                  Inl e \<Rightarrow> Inl e
                | Inr h \<Rightarrow>
                    Inr \<lparr>questions = [], filtered = [], pageSize = 10, page = 1,
                         starred = st, history = h\<rparr>)))"

subsection \<open>saveStarred and saveHistory (lines 26 to 32)\<close>

definition saveStarred :: "world \<Rightarrow> world" where
  "saveStarred w =
     w\<lparr>localStorage := setItem (localStorage w) ''starred'' (stored_json (Arr (starred (app w))))\<rparr>"

text \<open>
  \<^verbatim>\<open>state.history.slice(-200)\<close>: arrays and strings have \<^verbatim>\<open>slice\<close>; on any other value the
  call throws a TypeError.
\<close>

definition saveHistory :: "world \<Rightarrow> error + world" where
  "saveHistory w =
     (case history (app w) of
        Arr h \<Rightarrow>
          Inr (w\<lparr>localStorage :=
                 setItem (localStorage w) ''history'' (stored_json (Arr (js_slice_from h (- 200))))\<rparr>)
      | Str t \<Rightarrow>
          Inr (w\<lparr>localStorage :=
                 setItem (localStorage w) ''history'' (stored_json (Str (js_slice_from t (- 200))))\<rparr>)
      | _ \<Rightarrow> Inl TypeError)"

section \<open>The corpus loader (lines 34 to 53 and 197 to 221)\<close>

text \<open>
  The network: what \<^verbatim>\<open>fetch\<close> of a URL, relative to the page, gives. It either fails
  (the promise rejects) or answers with a status (\<^verbatim>\<open>res.ok\<close>) and a body, which
  \<^verbatim>\<open>res.json()\<close> parses.
\<close>

datatype fetch_result = Failed | Response bool string

type_synonym net = "string \<Rightarrow> fetch_result"

definition fallback_manifest :: jsval where
  "fallback_manifest =
     Obj [(''version'', Num 1), (''chunks'', Arr [Obj [(''path'', Str ''data/sample.json'')]])]"

text \<open>The body of the \<^verbatim>\<open>try\<close> in \<^verbatim>\<open>loadManifest\<close>.\<close>

definition fetch_manifest :: "net \<Rightarrow> error + jsval" where
  "fetch_manifest n =
     (case n ''data/manifest.json'' of
        Failed \<Rightarrow> Inl NetworkError
      | Response ok body \<Rightarrow>
          if \<not> ok then Inl (Error ''manifest not found'') else JSON_parse body)"

text \<open>The \<^verbatim>\<open>catch\<close> replaces whatever was thrown by the fallback manifest.\<close>

definition loadManifest :: "net \<Rightarrow> error + jsval" where
  "loadManifest n =
     (case fetch_manifest n of
        Inl Unsupported \<Rightarrow> Inl Unsupported
      | Inl e \<Rightarrow> Inr fallback_manifest
      | Inr m \<Rightarrow> Inr m)"

text \<open>
  The loop of \<^verbatim>\<open>loadAllChunks\<close> over the chunks that are left, \<open>arrays\<close> being what is
  loaded so far. The URL is \<^verbatim>\<open>data/\<close> followed by the chunk's path; the status of the
  response is not looked at.
\<close>

fun load_chunks :: "net \<Rightarrow> jsval list \<Rightarrow> jsval list \<Rightarrow> error + jsval list" where
  "load_chunks n arrays [] = Inr arrays"
| "load_chunks n arrays (c # cs) =
     (case get_prop c ''path'' of
        Inl e \<Rightarrow> Inl e
      | Inr p \<Rightarrow>
          (case n (''data/'' @ js_to_string p) of
             Failed \<Rightarrow> Inl NetworkError
           | Response ok body \<Rightarrow>
               (case JSON_parse body of
                  Inl e \<Rightarrow> Inl e
                | Inr arr \<Rightarrow>
                    (case js_iter arr of
                       Inl e \<Rightarrow> Inl e
                     | Inr xs \<Rightarrow> load_chunks n (arrays @ xs) cs))))"

definition loadAllChunks :: "net \<Rightarrow> jsval \<Rightarrow> error + jsval list" where
  "loadAllChunks n manifest =
     (case get_prop manifest ''chunks'' of
        Inl e \<Rightarrow> Inl e
      | Inr ch \<Rightarrow>
          (case js_iter ch of
             Inl e \<Rightarrow> Inl e
           | Inr cs \<Rightarrow> load_chunks n [] cs))"

subsection \<open>Normalization (lines 203 to 217)\<close>

text \<open>
  \<^verbatim>\<open>x.module || (x.category && x.category.toLowerCase().includes("math") ? "math"
  : "reading-writing")\<close>: the conditional's test is the whole conjunction.
\<close>

definition module_of :: "jsval \<Rightarrow> error + jsval" where
  "module_of x =
     (if truthy (field x ''module'') then Inr (field x ''module'')
      else if \<not> truthy (field x ''category'') then Inr (Str ''reading-writing'')
      else case toLowerCase_of (field x ''category'') of
             Inl e \<Rightarrow> Inl e
           | Inr lc \<Rightarrow>
               Inr (Str (if js_includes lc ''math'' then ''math'' else ''reading-writing'')))"

definition index_of :: "jsval \<Rightarrow> jsval" where
  "index_of x =
     (if is_number (field x ''correct_choice_index'') then field x ''correct_choice_index''
      else if is_number (field x ''answer_index'') then field x ''answer_index''
      else Null)"

definition normalize :: "jsval \<Rightarrow> error + question" where
  "normalize x =
     (if x = Undefined \<or> x = Null then Inl TypeError
      else case module_of x of
             Inl e \<Rightarrow> Inl e
           | Inr m \<Rightarrow>
               Inr \<lparr>uId = js_or (js_or (field x ''uId'') (field x ''id'')) (field x ''questionId''),
                    questionId = js_or (js_or (field x ''questionId'') (field x ''id'')) (field x ''uId''),
                    module = m,
                    primary_class_cd_desc =
                      js_or (js_or (field x ''primary_class_cd_desc'') (field x ''domain'')) (Str []),
                    skill_cd = js_or (field x ''skill_cd'') (Str []),
                    skill_desc = js_or (field x ''skill_desc'') (Str []),
                    difficulty = js_or (js_or (field x ''difficulty'') (field x ''diff'')) (Str []),
                    score_band_range_cd =
                      js_or (js_or (field x ''score_band_range_cd'') (field x ''band'')) Null,
                    stem_html =
                      js_or (js_or (js_or (field x ''stem_html'') (field x ''stem''))
                        (field x ''question_html'')) (Str []),
                    choices = js_or (js_or (field x ''choices'') (field x ''options'')) Null,
                    correct_choice_index = index_of x,
                    explanation_html =
                      js_or (js_or (field x ''explanation_html'') (field x ''explanation'')) (Str [])\<rparr>)"

text \<open>\<^verbatim>\<open>items.map(f)\<close> with a callback that can throw: the first throw ends the map.\<close>

fun map_err :: "('a \<Rightarrow> error + 'b) \<Rightarrow> 'a list \<Rightarrow> error + 'b list" where
  "map_err f [] = Inr []"
| "map_err f (x # xs) =
     (case f x of
        Inl e \<Rightarrow> Inl e
      | Inr y \<Rightarrow> (case map_err f xs of Inl e \<Rightarrow> Inl e | Inr ys \<Rightarrow> Inr (y # ys)))"

definition normalize_items :: "jsval list \<Rightarrow> error + question list" where
  "normalize_items items =
     (case map_err normalize items of
        Inl e \<Rightarrow> Inl e
      | Inr qs \<Rightarrow> Inr (filter (\<lambda>q. truthy (uId q)) qs))"

text \<open>\<^verbatim>\<open>main\<close>, up to the first render: what the load leaves in the state.\<close>

definition main :: "net \<Rightarrow> world \<Rightarrow> error + world" where
  "main n w =
     (case loadManifest n of
        Inl e \<Rightarrow> Inl e
      | Inr manifest \<Rightarrow>
          (case loadAllChunks n manifest of
             Inl e \<Rightarrow> Inl e
           | Inr items \<Rightarrow>
               (case normalize_items items of
                  Inl e \<Rightarrow> Inl e
                | Inr qs \<Rightarrow> Inr (w\<lparr>app := (app w)\<lparr>questions := qs, filtered := qs\<rparr>\<rparr>))))"

section \<open>Filtering (lines 62 to 82)\<close>

text \<open>The values of the four controls: the search box and the three selectors.\<close>

record controls =
  q_value :: string
  f_module_value :: string
  f_domain_value :: string
  f_diff_value :: string

text \<open>\<^verbatim>\<open>arr.filter(f)\<close> with a callback that can throw.\<close>

fun filter_err :: "('a \<Rightarrow> error + bool) \<Rightarrow> 'a list \<Rightarrow> error + 'a list" where
  "filter_err f [] = Inr []"
| "filter_err f (x # xs) =
     (case f x of
        Inl e \<Rightarrow> Inl e
      | Inr b \<Rightarrow>
          (case filter_err f xs of
             Inl e \<Rightarrow> Inl e
           | Inr ys \<Rightarrow> Inr (if b then x # ys else ys)))"

text \<open>The callback of the first filter: module, domain, difficulty, each skipped when empty.\<close>

definition keep_question :: "string \<Rightarrow> string \<Rightarrow> string \<Rightarrow> question \<Rightarrow> error + bool" where
  "keep_question moduleV domainV diffV x =
     (if moduleV \<noteq> [] \<and> module x \<noteq> Str moduleV then Inr False
      else case (if domainV \<noteq> []
                 then (case toLowerCase_of (js_or (primary_class_cd_desc x) (Str [])) of
                         Inl e \<Rightarrow> Inl e
                       | Inr d \<Rightarrow> Inr (\<not> js_includes d domainV))
                 else Inr False) of
             Inl e \<Rightarrow> Inl e
           | Inr reject \<Rightarrow>
               if reject then Inr False
               else if diffV \<noteq> [] \<and> difficulty x \<noteq> Str diffV then Inr False
               else Inr True)"

text \<open>The callback of the second filter: the stem, or else the skill description.\<close>

definition text_match :: "string \<Rightarrow> question \<Rightarrow> error + bool" where
  "text_match textV x =
     (case toLowerCase_of (js_or (stem_html x) (Str [])) of
        Inl e \<Rightarrow> Inl e
      | Inr st \<Rightarrow>
          if js_includes st textV then Inr True
          else (case toLowerCase_of (js_or (skill_desc x) (Str [])) of
                  Inl e \<Rightarrow> Inl e
                | Inr sk \<Rightarrow> Inr (js_includes sk textV)))"

text \<open>
  The criteria of \<^verbatim>\<open>apply\<close>, as its first four lines derive them from the controls:
  \<^verbatim>\<open>text\<close>, \<^verbatim>\<open>moduleV\<close>, \<^verbatim>\<open>domainV\<close> and \<^verbatim>\<open>diffV\<close>.
\<close>

record criteria =
  text_c :: string
  module_c :: string
  domain_c :: string
  difficulty_c :: string

definition read_controls :: "controls \<Rightarrow> criteria" where
  "read_controls c =
     \<lparr>text_c = toLowerCase (trim (q_value c)),
      module_c = f_module_value c,
      domain_c = toLowerCase (trim (f_domain_value c)),
      difficulty_c = f_diff_value c\<rparr>"

text \<open>
  \<^verbatim>\<open>apply\<close>: the state is assigned after both filters, so a throw leaves it as it was.
\<close>

definition apply_filter :: "controls \<Rightarrow> world \<Rightarrow> error + world" where
  "apply_filter c w =
     (let cr = read_controls c
      in case filter_err (keep_question (module_c cr) (domain_c cr) (difficulty_c cr))
                (questions (app w)) of
           Inl e \<Rightarrow> Inl e
         | Inr arr \<Rightarrow>
             (case (if text_c cr \<noteq> [] then filter_err (text_match (text_c cr)) arr
                    else Inr arr) of
                Inl e \<Rightarrow> Inl e
              | Inr arr' \<Rightarrow> Inr (w\<lparr>app := (app w)\<lparr>filtered := arr', page := 1\<rparr>\<rparr>)))"

section \<open>Paging (lines 101 to 114 and 183 to 192)\<close>

definition paginate :: "state \<Rightarrow> 'a list \<Rightarrow> 'a list" where
  "paginate s arr =
     (let start = (page s - 1) * pageSize s in js_slice arr start (start + pageSize s))"

text \<open>
  \<^verbatim>\<open>Math.max(1, Math.ceil(state.filtered.length / state.pageSize))\<close>. The quotient is
  taken exactly; for a length below \<open>2 ^ 32\<close> and page size 10 the rounded quotient of
  the doubles has the same ceiling.
\<close>

definition totalPages :: "state \<Rightarrow> int" where
  "totalPages s =
     max 1 \<lceil>(of_nat (length (filtered s)) :: rat) / of_int (pageSize s)\<rceil>"

definition prevPage :: "state \<Rightarrow> state" where
  "prevPage s = s\<lparr>page := max 1 (page s - 1)\<rparr>"

definition nextPage :: "state \<Rightarrow> state" where
  "nextPage s = s\<lparr>page := min (totalPages s) (page s + 1)\<rparr>"

text \<open>What \<^verbatim>\<open>render\<close> shows: the items of the current page and the two numbers of the pager.\<close>

definition render :: "state \<Rightarrow> question list \<times> int \<times> int" where
  "render s = (paginate s (filtered s), page s, totalPages s)"

section \<open>The handlers of a rendered item (lines 137 to 159)\<close>

text \<open>
  Every handler ends with \<^verbatim>\<open>render()\<close>, which reads the state to rebuild the view and
  writes neither the state nor the storage; the handlers are modelled up to that call.
\<close>

text \<open>The star button of question \<open>q\<close>.\<close>

definition star_click :: "question \<Rightarrow> world \<Rightarrow> world" where
  "star_click q w =
     (let ident = uId q;
          st = (if Set_has (starred (app w)) ident then Set_delete (starred (app w)) ident
                else Set_add (starred (app w)) ident)
      in saveStarred (w\<lparr>app := (app w)\<lparr>starred := st\<rparr>\<rparr>))"

text \<open>\<^verbatim>\<open>state.history.push(v)\<close>: only an array has \<^verbatim>\<open>push\<close>.\<close>

fun push :: "jsval \<Rightarrow> jsval \<Rightarrow> error + jsval" where
  "push (Arr h) v = Inr (Arr (h @ [v]))"
| "push x v = Inl TypeError"

text \<open>
  A click on the choice at index \<open>i\<close> of question \<open>q\<close> at time \<open>now\<close> (\<^verbatim>\<open>Date.now()\<close>). The
  class is added to the element first, whatever happens next; then the attempt is
  pushed and the history saved. The result is the class and, unless the handler threw,
  the world it leaves (the toast is presentation only).
\<close>

definition choice_click :: "question \<Rightarrow> int \<Rightarrow> int \<Rightarrow> world \<Rightarrow> string \<times> (error + world)" where
  "choice_click q i now w =
     (let correct = (Num i = correct_choice_index q)
      in (if correct then ''correct'' else ''incorrect'',
          case push (history (app w))
                 (Obj [(''id'', uId q), (''correct'', Bool correct), (''ts'', Num now)]) of
            Inl e \<Rightarrow> Inl e
          | Inr h \<Rightarrow> saveHistory (w\<lparr>app := (app w)\<lparr>history := h\<rparr>\<rparr>)))"

text \<open>
  A sequence of clicks, each with its question, index and time. A handler that throws
  ends that event only: the next click finds the world as the throw left it.
\<close>

fun choice_clicks :: "(question \<times> int \<times> int) list \<Rightarrow> world \<Rightarrow> world" where
  "choice_clicks [] w = w"
| "choice_clicks ((q, i, now) # cs) w =
     choice_clicks cs (case snd (choice_click q i now w) of Inl e \<Rightarrow> w | Inr w' \<Rightarrow> w')"

text \<open>The attempt record that a click appends.\<close>

definition attempt :: "question \<times> int \<times> int \<Rightarrow> jsval" where
  "attempt c =
     (case c of (q, i, now) \<Rightarrow>
        Obj [(''id'', uId q), (''correct'', Bool (Num i = correct_choice_index q)), (''ts'', Num now)])"

section \<open>Shuffle (lines 164 to 174)\<close>

definition swap :: "'a list \<Rightarrow> nat \<Rightarrow> nat \<Rightarrow> 'a list" where
  "swap arr i j = arr[i := arr ! j, j := arr ! i]"

text \<open>
  The loop of \<^verbatim>\<open>shufflePractice\<close> at index \<open>i\<close>, running down to 1. \<open>rnd k\<close> is what the
  \<open>k\<close>-th call of \<^verbatim>\<open>Math.random()\<close> returns, a number from 0 up to but not including 1;
  then \<^verbatim>\<open>Math.floor(Math.random() * (i + 1))\<close> is an index from 0 to \<open>i\<close>. A draw outside
  that range is not a result of \<^verbatim>\<open>Math.random\<close>: the model answers \<open>Unsupported\<close>.
\<close>

fun fisher_yates :: "(nat \<Rightarrow> rat) \<Rightarrow> nat \<Rightarrow> nat \<Rightarrow> 'a list \<Rightarrow> error + 'a list" where
  "fisher_yates rnd k 0 arr = Inr arr"
| "fisher_yates rnd k (Suc i) arr =
     (let j = \<lfloor>rnd k * of_nat (Suc i + 1)\<rfloor>
      in if 0 \<le> j \<and> j \<le> int (Suc i)
         then fisher_yates rnd (Suc k) i (swap arr (Suc i) (nat j))
         else Inl Unsupported)"

definition shufflePractice :: "(nat \<Rightarrow> rat) \<Rightarrow> world \<Rightarrow> error + world" where
  "shufflePractice rnd w =
     (let arr = questions (app w)
      in case fisher_yates rnd 0 (length arr - 1) arr of
           Inl e \<Rightarrow> Inl e
         | Inr arr' \<Rightarrow> Inr (w\<lparr>app := (app w)\<lparr>filtered := js_slice arr' 0 10, page := 1\<rparr>\<rparr>))"

section \<open>Show starred (lines 176 to 181) and the session as a sequence of events\<close>

definition showStarred :: "world \<Rightarrow> world" where
  "showStarred w =
     w\<lparr>app := (app w)\<lparr>filtered := filter (\<lambda>x. Set_has (starred (app w)) (uId x)) (questions (app w)),
                        page := 1\<rparr>\<rparr>"

text \<open>
  What the user can trigger: a change of a filter control, the pager's buttons, the
  two mode actions (the shuffle with the draws it will get), and the two buttons of a
  rendered question. A handler that throws leaves the world as it was at the throw.
\<close>

datatype event =
    FilterChange controls
  | PrevPage
  | NextPage
  | Shuffle "nat \<Rightarrow> rat"
  | ShowStarred
  | StarClick question
  | ChoiceClick question int int

fun handle :: "event \<Rightarrow> world \<Rightarrow> world" where
  "handle (FilterChange c) w = (case apply_filter c w of Inl e \<Rightarrow> w | Inr w' \<Rightarrow> w')"
| "handle PrevPage w = w\<lparr>app := prevPage (app w)\<rparr>"
| "handle NextPage w = w\<lparr>app := nextPage (app w)\<rparr>"
| "handle (Shuffle rnd) w = (case shufflePractice rnd w of Inl e \<Rightarrow> w | Inr w' \<Rightarrow> w')"
| "handle ShowStarred w = showStarred w"
| "handle (StarClick q) w = star_click q w"
| "handle (ChoiceClick q i now) w =
     (case snd (choice_click q i now w) of Inl e \<Rightarrow> w | Inr w' \<Rightarrow> w')"

text \<open>
  A session: the state is initialized from the storage, \<^verbatim>\<open>main\<close> starts loading, the
  events of \<open>early\<close> arrive while the corpus is being fetched, the load completes (or
  fails, leaving the empty collection), and the events of \<open>late\<close> follow.
\<close>

definition session :: "storage \<Rightarrow> net \<Rightarrow> event list \<Rightarrow> event list \<Rightarrow> error + world" where
  "session ls n early late =
     (case init_state ls of
        Inl e \<Rightarrow> Inl e
      | Inr s \<Rightarrow>
          (let w1 = foldl (\<lambda>w e. handle e w) \<lparr>app = s, localStorage = ls\<rparr> early;
               w2 = (case main n w1 of Inl e \<Rightarrow> w1 | Inr w' \<Rightarrow> w')
           in Inr (foldl (\<lambda>w e. handle e w) w2 late)))"

text \<open>The page is one of the pages of the filtered subset.\<close>

definition page_in_range :: "world \<Rightarrow> bool" where
  "page_in_range w =
     (pageSize (app w) = 10 \<and> 1 \<le> page (app w) \<and> page (app w) \<le> totalPages (app w))"

text \<open>Before the corpus is loaded: no question, nothing filtered, page 1.\<close>

definition nothing_loaded :: "world \<Rightarrow> bool" where
  "nothing_loaded w =
     (pageSize (app w) = 10 \<and> page (app w) = 1 \<and> questions (app w) = [] \<and> filtered (app w) = [])"

section \<open>The filter as the specification words it\<close>

text \<open>
  A text field of a question holds a string, or a falsy value that \<^verbatim>\<open>|| ""\<close> replaces
  by the empty string; \<open>text_of\<close> is the string it stands for.
\<close>

definition text_field :: "jsval \<Rightarrow> bool" where
  "text_field v = (case v of Str t \<Rightarrow> True | _ \<Rightarrow> \<not> truthy v)"

definition text_of :: "jsval \<Rightarrow> string" where
  "text_of v = (case v of Str t \<Rightarrow> t | _ \<Rightarrow> [])"

text \<open>A case-insensitive substring match of a criterion against a field.\<close>

definition contains_ci :: "jsval \<Rightarrow> string \<Rightarrow> bool" where
  "contains_ci v crit = sublist (toLowerCase crit) (toLowerCase (text_of v))"

text \<open>
  The conjunction of the criteria that are not blank (a criterion is blank when it is
  the empty string): equality for module and difficulty, a case-insensitive substring
  match for the domain and for the free text.
\<close>

definition satisfies :: "criteria \<Rightarrow> question \<Rightarrow> bool" where
  "satisfies cr x =
     ((module_c cr = [] \<or> module x = Str (module_c cr))
      \<and> (domain_c cr = [] \<or> contains_ci (primary_class_cd_desc x) (domain_c cr))
      \<and> (difficulty_c cr = [] \<or> difficulty x = Str (difficulty_c cr))
      \<and> (text_c cr = []
           \<or> contains_ci (stem_html x) (text_c cr)
           \<or> contains_ci (skill_desc x) (text_c cr)))"

section \<open>Normalization as the specification words it\<close>

text \<open>
  First-non-empty resolution: the first alternative that is not empty (truthy, as
  \<^verbatim>\<open>||\<close> tests it), else the last resort \<open>d\<close>.
\<close>

fun first_of :: "jsval list \<Rightarrow> jsval \<Rightarrow> jsval" where
  "first_of [] d = d"
| "first_of (v # vs) d = (if truthy v then v else first_of vs d)"

definition resolved_uId :: "jsval \<Rightarrow> jsval" where
  "resolved_uId x = first_of [field x ''uId'', field x ''id''] (field x ''questionId'')"

text \<open>
  A raw record the normalization accepts: not \<^verbatim>\<open>null\<close>, and its category, where it is
  looked at, is text.
\<close>

definition raw_record :: "jsval \<Rightarrow> bool" where
  "raw_record x =
     (x \<noteq> Undefined \<and> x \<noteq> Null
      \<and> (truthy (field x ''module'') \<or> text_field (field x ''category'')))"

text \<open>
  A record with legacy fields only: no canonical module, difficulty, choices or
  answer, the category \<^verbatim>\<open>Math - Algebra\<close>, a difficulty code in \<^verbatim>\<open>diff\<close>, an array in
  \<^verbatim>\<open>options\<close> and a number in \<^verbatim>\<open>answer_index\<close>.
\<close>

definition legacy_record :: "jsval \<Rightarrow> bool" where
  "legacy_record x =
     (field x ''module'' = Undefined \<and> field x ''difficulty'' = Undefined
      \<and> field x ''choices'' = Undefined \<and> field x ''correct_choice_index'' = Undefined
      \<and> field x ''category'' = Str ''Math - Algebra''
      \<and> (\<exists>d. field x ''diff'' = Str d) \<and> (\<exists>os. field x ''options'' = Arr os)
      \<and> is_number (field x ''answer_index''))"

section \<open>Sample data\<close>

text \<open>A question shaped as the README's example, with identifier \<open>i\<close>.\<close>

definition sample_question :: "string \<Rightarrow> question" where
  "sample_question i =
     \<lparr>uId = Str i, questionId = Str i, module = Str ''math'',
      primary_class_cd_desc = Str ''Algebra'', skill_cd = Str [],
      skill_desc = Str ''Linear equations in two variables'', difficulty = Str ''M'',
      score_band_range_cd = Null, stem_html = Str ''<p>Question content...</p>'',
      choices = Arr [Str ''Option A'', Str ''Option B'', Str ''Option C'', Str ''Option D''],
      correct_choice_index = Num 2, explanation_html = Str []\<rparr>"

text \<open>A state on page 2 of twelve filtered questions.\<close>

definition twelve :: "question list" where
  "twelve = map sample_question
     [''a'', ''b'', ''c'', ''d'', ''e'', ''f'', ''g'', ''h'', ''i'', ''j'', ''k'', ''l'']"

definition state_page2 :: state where
  "state_page2 =
     \<lparr>questions = twelve, filtered = twelve, pageSize = 10, page = 2, starred = [],
      history = Arr []\<rparr>"

definition three_questions :: "question list" where
  "three_questions =
     [sample_question ''q-0001'',
      (sample_question ''q-0002'')\<lparr>primary_class_cd_desc := Str ''Geometry'',
         skill_desc := Str ''Area and volume''\<rparr>,
      (sample_question ''q-0003'')\<lparr>module := Str ''reading-writing'',
         primary_class_cd_desc := Str ''Words in Context'', skill_desc := Str []\<rparr>]"

definition world_three :: world where
  "world_three =
     \<lparr>app = \<lparr>questions = three_questions, filtered = three_questions, pageSize = 10, page = 1,
              starred = [], history = Arr []\<rparr>,
      localStorage = Map.empty\<rparr>"

definition controls_algebra :: controls where
  "controls_algebra =
     \<lparr>q_value = '' LINEAR '', f_module_value = ''math'', f_domain_value = ''alg'',
      f_diff_value = []\<rparr>"

text \<open>Three raw records: legacy fields only, no identifier, canonical fields.\<close>

definition raw_legacy :: jsval where
  "raw_legacy =
     Obj [(''id'', Str ''L-17''), (''diff'', Str ''H''),
          (''options'', Arr [Str ''3'', Str ''4'', Str ''5'']), (''answer_index'', Num 1),
          (''category'', Str ''Math - Algebra'')]"

definition raw_anonymous :: jsval where
  "raw_anonymous = Obj [(''stem'', Str ''Which choice completes the text?''), (''uId'', Str [])]"

definition raw_canonical :: jsval where
  "raw_canonical =
     Obj [(''uId'', Str ''q-0001''), (''questionId'', Str ''MATH-001''), (''module'', Str ''math''),
          (''difficulty'', Str ''M''), (''choices'', Arr [Str ''A'', Str ''B'']),
          (''correct_choice_index'', Num 0)]"

text \<open>A question whose raw record had no numeric answer index.\<close>

definition question_no_key :: question where
  "question_no_key = (sample_question ''q-0009'')\<lparr>correct_choice_index := Null\<rparr>"


text \<open>
  A static host laid out as the README lists the files: the sample data set is at
  \<^verbatim>\<open>data/sample.json\<close>, any other path answers 404 with an HTML body, and the request
  for the manifest fails (the network-error scenario).
\<close>

definition static_host :: net where
  "static_host url =
     (if url = ''data/manifest.json'' then Failed
      else if url = ''data/sample.json'' then Response True (stored_json (Arr [raw_canonical]))
      else Response False ''<h1>Not Found</h1>'')"

text \<open>The world when the script starts with an empty storage.\<close>

definition world_start :: world where
  "world_start =
     \<lparr>app = \<lparr>questions = [], filtered = [], pageSize = 10, page = 1, starred = [],
              history = Arr []\<rparr>,
      localStorage = Map.empty\<rparr>"



section \<open>JSON.parse: every step consumes input and the fuel is enough\<close>

lemma skip_ws_length: "length (skip_ws s) \<le> length s"
  by (simp add: skip_ws_def length_dropWhile_le)

lemma skip_ws_Cons_length: "skip_ws s = c # cs \<Longrightarrow> length cs < length s"
  using skip_ws_length [of s] by simp

lemma cons_result_rest:
  "cons_result c x = Inr (str, r) \<Longrightarrow> \<exists>str'. x = Inr (str', r)"
  by (auto simp: cons_result_def split: sum.splits)

lemma scan_int_rest: "scan_int s = Some (ds, r) \<Longrightarrow> length r < length s"
proof (cases s)
  case Nil
  then show "scan_int s = Some (ds, r) \<Longrightarrow> length r < length s" by (simp add: scan_int_def)
next
  case (Cons c cs)
  assume a: "scan_int s = Some (ds, r)"
  have "length (dropWhile is_digit (c # cs)) \<le> length cs" if "is_digit c"
    using that by (simp add: length_dropWhile_le)
  then show "length r < length s"
    using a Cons by (auto simp: scan_int_def split: if_splits)
qed

lemma scan_frac_rest: "scan_frac s = Some (b, r) \<Longrightarrow> length r \<le> length s"
  by (cases s) (auto simp: scan_frac_def split: if_splits intro: le_SucI length_dropWhile_le)

lemma scan_exp_rest: "scan_exp s = Some (b, r) \<Longrightarrow> length r \<le> length s"
proof (cases s)
  case Nil
  then show "scan_exp s = Some (b, r) \<Longrightarrow> length r \<le> length s" by (simp add: scan_exp_def)
next
  case (Cons c cs)
  assume a: "scan_exp s = Some (b, r)"
  have d: "length (dropWhile is_digit t) \<le> length t" for t
    by (rule length_dropWhile_le)
  show "length r \<le> length s"
  proof (cases "c = CHR ''e'' \<or> c = CHR ''E''")
    case False
    then show ?thesis using a Cons by (auto simp: scan_exp_def)
  next
    case True
    let ?r' = "case cs of [] \<Rightarrow> cs | sg # t \<Rightarrow> if sg = CHR ''+'' \<or> sg = CHR ''-'' then t else cs"
    have "length ?r' \<le> length cs"
      by (cases cs) auto
    moreover have "r = dropWhile is_digit ?r'"
      using a Cons True by (auto simp: scan_exp_def Let_def split: if_splits)
    ultimately show ?thesis
      using d [of ?r'] Cons by simp
  qed
qed

lemma parse_number_rest: "parse_number s = Inr (v, r) \<Longrightarrow> length r < length s"
proof -
  assume a: "parse_number s = Inr (v, r)"
  let ?s1 = "if s \<noteq> [] \<and> hd s = CHR ''-'' then tl s else s"
  from a obtain ds r1 fr r2 ex where i: "scan_int ?s1 = Some (ds, r1)"
      and f: "scan_frac r1 = Some (fr, r2)" and e: "scan_exp r2 = Some (ex, r)"
    by (auto simp: parse_number_def Let_def split: option.splits if_splits)
  have "length ?s1 \<le> length s" by simp
  then show ?thesis
    using scan_int_rest [OF i] scan_frac_rest [OF f] scan_exp_rest [OF e] by linarith
qed

lemma parse_string_rest: "parse_string s = Inr (str, r) \<Longrightarrow> length r < length s"
proof (induction s arbitrary: str rule: parse_string.induct)
  case 1
  then show ?case by simp
next
  case (2 c cs)
  show ?case
  proof (cases "c = CHR 0x22")
    case True
    then show ?thesis using "2.prems" by simp
  next
    case nq: False
    show ?thesis
    proof (cases "c = CHR 0x5C")
      case nb: False
      have lo: "\<not> (of_char c :: nat) < 32"
        using "2.prems" nq nb by (simp split: if_splits)
      then have "cons_result c (parse_string cs) = Inr (str, r)"
        using "2.prems" nq nb by simp
      then obtain str' where "parse_string cs = Inr (str', r)"
        by (blast dest: cons_result_rest)
      from "2.IH"(3) [OF nq nb lo this] show ?thesis by simp
    next
      case bs: True
      then obtain e rest where cs: "cs = e # rest"
        using "2.prems" nq by (cases cs) auto
      show ?thesis
      proof (cases "e = CHR ''u''")
        case u: True
        have eq: "(case map hex_val (take 4 rest) of
                  [Some a, Some b, Some h, Some l] \<Rightarrow>
                    if a = 0 \<and> b = 0 then cons_result (char_of (16 * h + l)) (parse_string (drop 4 rest))
                    else Inl Unsupported
                | _ \<Rightarrow> Inl SyntaxError) = Inr (str, r)"
          using "2.prems" nq bs cs u by simp
        then obtain a b h l where hx: "map hex_val (take 4 rest) = [Some a, Some b, Some h, Some l]"
          by (auto split: list.splits option.splits)
        with eq have z: "a = 0 \<and> b = 0"
            and cr: "cons_result (char_of (16 * h + l)) (parse_string (drop 4 rest)) = Inr (str, r)"
          by (simp_all split: if_splits)
        from cr obtain str' where "parse_string (drop 4 rest) = Inr (str', r)"
          by (blast dest: cons_result_rest)
        from "2.IH"(1) [OF nq bs cs u hx refl refl refl refl refl refl refl refl z this]
        have "length r < length (drop 4 rest)" .
        then show ?thesis using cs by simp
      next
        case nu: False
        have eq: "(case unescape e of
                     None \<Rightarrow> Inl SyntaxError
                   | Some x \<Rightarrow> cons_result x (parse_string rest)) = Inr (str, r)"
          using "2.prems" nq bs cs nu by simp
        then obtain x where ue: "unescape e = Some x"
            and cr: "cons_result x (parse_string rest) = Inr (str, r)"
          by (auto split: option.splits)
        from cr obtain str' where "parse_string rest = Inr (str', r)"
          by (blast dest: cons_result_rest)
        from "2.IH"(2) [OF nq bs cs nu ue this] have "length r < length rest" .
        then show ?thesis using cs by simp
      qed
    qed
  qed
qed

lemma parse_value_rest_step:
  assumes E: "\<And>acc s v r. parse_elements n acc s = Inr (v, r) \<Longrightarrow> length r < length s"
    and M: "\<And>acc s v r. parse_members n acc s = Inr (v, r) \<Longrightarrow> length r < length s"
    and p: "parse_value (Suc n) s = Inr (v, r)"
  shows "length r < length s"
proof (cases "skip_ws s")
  case Nil
  then show ?thesis using p by simp
next
  case (Cons c cs)
  then have cs: "length cs < length s"
    by (rule skip_ws_Cons_length)
  consider (str) "c = CHR 0x22"
    | (arr) "c \<noteq> CHR 0x22" "c = CHR ''[''"
    | (obj) "c \<noteq> CHR 0x22" "c \<noteq> CHR ''[''" "c = CHR ''{''"
    | (other) "c \<noteq> CHR 0x22" "c \<noteq> CHR ''[''" "c \<noteq> CHR ''{''"
    by blast
  then show ?thesis
  proof cases
    case str
    then obtain t where "parse_string cs = Inr (t, r)"
      using p Cons by (auto split: sum.splits)
    then show ?thesis using parse_string_rest cs by fastforce
  next
    case arr
    then obtain d r0 where d: "skip_ws cs = d # r0"
      using p Cons by (cases "skip_ws cs") auto
    then have r0: "length r0 < length cs" by (rule skip_ws_Cons_length)
    show ?thesis
    proof (cases "d = CHR '']''")
      case True
      then show ?thesis using p Cons arr d r0 cs by simp
    next
      case False
      then have "parse_elements n [] cs = Inr (v, r)"
        using p Cons arr d by simp
      then show ?thesis using E cs by fastforce
    qed
  next
    case obj
    then obtain d r0 where d: "skip_ws cs = d # r0"
      using p Cons by (cases "skip_ws cs") auto
    then have r0: "length r0 < length cs" by (rule skip_ws_Cons_length)
    show ?thesis
    proof (cases "d = CHR ''}''")
      case True
      then show ?thesis using p Cons obj d r0 cs by simp
    next
      case False
      then have "parse_members n [] cs = Inr (v, r)"
        using p Cons obj d by simp
      then show ?thesis using M cs by fastforce
    qed
  next
    case other
    have "r = drop 3 cs \<or> r = drop 4 cs \<or> parse_number (c # cs) = Inr (v, r)"
      using p Cons other by (simp split: if_splits)
    moreover have "length (c # cs) \<le> length s"
      using skip_ws_length [of s] Cons by simp
    ultimately show ?thesis
      using cs parse_number_rest [of "c # cs" v r] by auto
  qed
qed

lemma parse_elements_rest_step:
  assumes V: "\<And>s v r. parse_value n s = Inr (v, r) \<Longrightarrow> length r < length s"
    and E: "\<And>acc s v r. parse_elements n acc s = Inr (v, r) \<Longrightarrow> length r < length s"
    and p: "parse_elements (Suc n) acc s = Inr (v, r)"
  shows "length r < length s"
proof -
  from p obtain v1 r1 where v1: "parse_value n s = Inr (v1, r1)"
    by (auto split: sum.splits)
  then have r1: "length r1 < length s" by (rule V)
  from p v1 obtain d r' where d: "skip_ws r1 = d # r'"
    by (cases "skip_ws r1") auto
  then have r': "length r' < length r1" by (rule skip_ws_Cons_length)
  show ?thesis
  proof (cases "d = CHR '',''")
    case True
    then have "parse_elements n (acc @ [v1]) r' = Inr (v, r)"
      using p v1 d by simp
    then have "length r < length r'" by (rule E)
    then show ?thesis using r' r1 by simp
  next
    case False
    then have "r = r'"
      using p v1 d by (simp split: if_splits)
    then show ?thesis using r' r1 by simp
  qed
qed

lemma parse_members_rest_step:
  assumes V: "\<And>s v r. parse_value n s = Inr (v, r) \<Longrightarrow> length r < length s"
    and M: "\<And>acc s v r. parse_members n acc s = Inr (v, r) \<Longrightarrow> length r < length s"
    and p: "parse_members (Suc n) acc s = Inr (v, r)"
  shows "length r < length s"
proof -
  from p obtain c cs where c: "skip_ws s = c # cs"
    by (cases "skip_ws s") auto
  then have cs: "length cs < length s" by (rule skip_ws_Cons_length)
  from p c have q: "c = CHR 0x22"
    by (simp split: if_splits)
  from p c q obtain k r0 where k: "parse_string cs = Inr (k, r0)"
    by (auto split: sum.splits)
  then have r0: "length r0 < length cs" by (rule parse_string_rest)
  from p c q k obtain d r1 where d: "skip_ws r0 = d # r1"
    by (cases "skip_ws r0") auto
  then have r1: "length r1 < length r0" by (rule skip_ws_Cons_length)
  from p c q k d have col: "d = CHR '':''"
    by (simp split: if_splits)
  from p c q k d col obtain v1 r2 where v1: "parse_value n r1 = Inr (v1, r2)"
    by (auto split: sum.splits)
  then have r2: "length r2 < length r1" by (rule V)
  from p c q k d col v1 have ni: "\<not> index_like k"
    by (simp split: if_splits)
  from p c q k d col v1 ni obtain d' r3 where d': "skip_ws r2 = d' # r3"
    by (cases "skip_ws r2") auto
  then have r3: "length r3 < length r2" by (rule skip_ws_Cons_length)
  show ?thesis
  proof (cases "d' = CHR '',''")
    case True
    then have "parse_members n (AList.update k v1 acc) r3 = Inr (v, r)"
      using p c q k d col v1 ni d' by simp
    then have "length r < length r3" by (rule M)
    then show ?thesis using r3 r2 r1 r0 cs by simp
  next
    case False
    then have "r = r3"
      using p c q k d col v1 ni d' by (simp split: if_splits)
    then show ?thesis using r3 r2 r1 r0 cs by simp
  qed
qed

lemma parse_rest:
  "(\<forall>s v r. parse_value n s = Inr (v, r) \<longrightarrow> length r < length s)
   \<and> (\<forall>acc s v r. parse_elements n acc s = Inr (v, r) \<longrightarrow> length r < length s)
   \<and> (\<forall>acc s v r. parse_members n acc s = Inr (v, r) \<longrightarrow> length r < length s)"
proof (induction n)
  case 0
  show ?case by simp
next
  case (Suc n)
  then have V: "\<And>s v r. parse_value n s = Inr (v, r) \<Longrightarrow> length r < length s"
    and E: "\<And>acc s v r. parse_elements n acc s = Inr (v, r) \<Longrightarrow> length r < length s"
    and M: "\<And>acc s v r. parse_members n acc s = Inr (v, r) \<Longrightarrow> length r < length s"
    by blast+
  have "length r < length s" if "parse_value (Suc n) s = Inr (v, r)" for s v r
    using E M that by (rule parse_value_rest_step)
  moreover have "length r < length s" if "parse_elements (Suc n) acc s = Inr (v, r)" for acc s v r
    using V E that by (rule parse_elements_rest_step)
  moreover have "length r < length s" if "parse_members (Suc n) acc s = Inr (v, r)" for acc s v r
    using V M that by (rule parse_members_rest_step)
  ultimately show ?case by blast
qed
lemma parse_value_rest: "parse_value n s = Inr (v, r) \<Longrightarrow> length r < length s"
  using parse_rest by blast


lemma parse_value_fuel_step:
  assumes E: "\<And>acc t. 2 * length t + 1 < n \<Longrightarrow> parse_elements (Suc n) acc t = parse_elements n acc t"
    and M: "\<And>acc t. 2 * length t + 1 < n \<Longrightarrow> parse_members (Suc n) acc t = parse_members n acc t"
    and s: "2 * length s < Suc n"
  shows "parse_value (Suc (Suc n)) s = parse_value (Suc n) s"
proof (cases "skip_ws s")
  case Nil
  then show ?thesis by simp
next
  case (Cons c cs)
  then have "length cs < length s"
    by (rule skip_ws_Cons_length)
  then have "2 * length cs + 1 < n"
    using s by linarith
  then have "parse_elements (Suc n) [] cs = parse_elements n [] cs"
      "parse_members (Suc n) [] cs = parse_members n [] cs"
    using E M by blast+
  then show ?thesis
    using Cons by (simp del: parse_elements.simps parse_members.simps split: list.splits)
qed

lemma parse_elements_fuel_step:
  assumes V: "\<And>t. 2 * length t < n \<Longrightarrow> parse_value (Suc n) t = parse_value n t"
    and E: "\<And>acc t. 2 * length t + 1 < n \<Longrightarrow> parse_elements (Suc n) acc t = parse_elements n acc t"
    and s: "2 * length s + 1 < Suc n"
  shows "parse_elements (Suc (Suc n)) acc s = parse_elements (Suc n) acc s"
proof -
  have v: "parse_value (Suc n) s = parse_value n s"
    using V s by simp
  show ?thesis
  proof (cases "parse_value n s")
    case (Inl e)
    then show ?thesis using v by simp
  next
    case (Inr p)
    obtain v1 r1 where p: "p = (v1, r1)" by (cases p)
    have r1: "length r1 < length s"
      using Inr p parse_value_rest by blast
    show ?thesis
    proof (cases "skip_ws r1")
      case Nil
      then show ?thesis using v Inr p by simp
    next
      case (Cons d r')
      then have "length r' < length r1" by (rule skip_ws_Cons_length)
      then have "2 * length r' + 1 < n"
        using r1 s by linarith
      then have "parse_elements (Suc n) (acc @ [v1]) r' = parse_elements n (acc @ [v1]) r'"
        using E by blast
      then show ?thesis
        using v Inr p Cons by (simp del: parse_value.simps)
    qed
  qed
qed

lemma parse_members_fuel_step:
  assumes V: "\<And>t. 2 * length t < n \<Longrightarrow> parse_value (Suc n) t = parse_value n t"
    and M: "\<And>acc t. 2 * length t + 1 < n \<Longrightarrow> parse_members (Suc n) acc t = parse_members n acc t"
    and s: "2 * length s + 1 < Suc n"
  shows "parse_members (Suc (Suc n)) acc s = parse_members (Suc n) acc s"
proof (cases "skip_ws s")
  case Nil
  then show ?thesis by simp
next
  case (Cons c cs)
  then have cs: "length cs < length s" by (rule skip_ws_Cons_length)
  show ?thesis
  proof (cases "parse_string cs")
    case (Inl e)
    then show ?thesis using Cons by simp
  next
    case (Inr p)
    obtain k r0 where p: "p = (k, r0)" by (cases p)
    have r0: "length r0 < length cs"
      using Inr p parse_string_rest by blast
    show ?thesis
    proof (cases "skip_ws r0")
      case Nil
      then show ?thesis using Cons Inr p by simp
    next
      case c2: (Cons d r1)
      then have r1: "length r1 < length r0" by (rule skip_ws_Cons_length)
      then have "2 * length r1 < n"
        using r0 cs s by linarith
      then have v: "parse_value (Suc n) r1 = parse_value n r1"
        using V by blast
      show ?thesis
      proof (cases "parse_value n r1")
        case (Inl e)
        then show ?thesis using Cons Inr p c2 v by simp
      next
        case i2: (Inr p2)
        obtain v1 r2 where p2: "p2 = (v1, r2)" by (cases p2)
        have r2: "length r2 < length r1"
          using i2 p2 parse_value_rest by blast
        show ?thesis
        proof (cases "skip_ws r2")
          case Nil
          then show ?thesis using Cons Inr p c2 v i2 p2 by simp
        next
          case c3: (Cons d' r3)
          then have "length r3 < length r2" by (rule skip_ws_Cons_length)
          then have "2 * length r3 + 1 < n"
            using r2 r1 r0 cs s by linarith
          then have "parse_members (Suc n) (AList.update k v1 acc) r3
                       = parse_members n (AList.update k v1 acc) r3"
            using M by blast
          then show ?thesis
            using Cons Inr p c2 v i2 p2 c3 by (simp del: parse_value.simps)
        qed
      qed
    qed
  qed
qed

lemma parse_fuel_step:
  "(\<forall>s. 2 * length s < n \<longrightarrow> parse_value (Suc n) s = parse_value n s)
   \<and> (\<forall>acc s. 2 * length s + 1 < n \<longrightarrow> parse_elements (Suc n) acc s = parse_elements n acc s)
   \<and> (\<forall>acc s. 2 * length s + 1 < n \<longrightarrow> parse_members (Suc n) acc s = parse_members n acc s)"
proof (induction n)
  case 0
  show ?case by simp
next
  case (Suc n)
  then have V: "\<And>t. 2 * length t < n \<Longrightarrow> parse_value (Suc n) t = parse_value n t"
    and E: "\<And>acc t. 2 * length t + 1 < n \<Longrightarrow> parse_elements (Suc n) acc t = parse_elements n acc t"
    and M: "\<And>acc t. 2 * length t + 1 < n \<Longrightarrow> parse_members (Suc n) acc t = parse_members n acc t"
    by blast+
  have "parse_value (Suc (Suc n)) s = parse_value (Suc n) s" if "2 * length s < Suc n" for s
    using E M that by (rule parse_value_fuel_step)
  moreover have "parse_elements (Suc (Suc n)) acc s = parse_elements (Suc n) acc s"
    if "2 * length s + 1 < Suc n" for acc s
    using V E that by (rule parse_elements_fuel_step)
  moreover have "parse_members (Suc (Suc n)) acc s = parse_members (Suc n) acc s"
    if "2 * length s + 1 < Suc n" for acc s
    using V M that by (rule parse_members_fuel_step)
  ultimately show ?case by blast
qed

lemma parse_value_fuel:
  assumes "2 * length s < n"
  shows "parse_value n s = parse_value (Suc (2 * length s)) s"
proof -
  have "parse_value (Suc (2 * length s) + k) s = parse_value (Suc (2 * length s)) s" for k
  proof (induction k)
    case 0
    show ?case by simp
  next
    case (Suc k)
    have "parse_value (Suc (Suc (2 * length s) + k)) s = parse_value (Suc (2 * length s) + k) s"
      using parse_fuel_step [of "Suc (2 * length s) + k"] by simp
    then show ?case using Suc by simp
  qed
  from this [of "n - Suc (2 * length s)"] show ?thesis
    using assms by simp
qed

lemma JSON_parse_fuel:
  assumes "2 * length t < n"
  shows "(case parse_value n t of
            Inl e \<Rightarrow> Inl e
          | Inr (v, r) \<Rightarrow> if skip_ws r = [] then Inr v else Inl SyntaxError) = JSON_parse t"
  by (simp add: JSON_parse_def parse_value_fuel [OF assms])

section \<open>Paging: the pages partition the filtered subset\<close>

lemma js_slice_nonneg:
  assumes "0 \<le> a" and "a \<le> b"
  shows "js_slice xs a b = drop (nat a) (take (nat b) xs)"
proof -
  let ?len = "int (length xs)"
  have k: "rel_index ?len a = min a ?len" and f: "rel_index ?len b = min b ?len"
    using assms by (simp_all add: rel_index_def)
  have s: "js_slice xs a b = take (nat (max (min b ?len - min a ?len) 0)) (drop (nat (min a ?len)) xs)"
    by (simp only: js_slice_def Let_def k f)
  show ?thesis
  proof (cases "a \<le> ?len")
    case True
    then have ka: "min a ?len = a" by simp
    show ?thesis
    proof (cases "b \<le> ?len")
      case True
      then have "min b ?len = b" by simp
      then have "js_slice xs a b = take (nat b - nat a) (drop (nat a) xs)"
        using s ka assms by (simp add: nat_diff_distrib)
      then show ?thesis by (simp add: drop_take)
    next
      case False
      then have "min b ?len = ?len" by simp
      then have "js_slice xs a b = take (length xs - nat a) (drop (nat a) xs)"
        using s ka assms \<open>a \<le> ?len\<close> by (simp add: nat_diff_distrib)
      moreover have "take (nat b) xs = xs"
        using False by simp
      ultimately show ?thesis by simp
    qed
  next
    case False
    then have "min a ?len = ?len" by simp
    then have "js_slice xs a b = []"
      using s by simp
    moreover have "drop (nat a) (take (nat b) xs) = []"
      using False by simp
    ultimately show ?thesis by simp
  qed
qed

lemma paginate_take_drop:
  assumes "pageSize s = 10" and "1 \<le> page s"
  shows "paginate s xs = take 10 (drop (nat ((page s - 1) * 10)) xs)"
proof -
  have d: "nat ((page s - 1) * 10 + 10) - nat ((page s - 1) * 10) = 10"
    using assms(2) by simp
  have "paginate s xs = drop (nat ((page s - 1) * 10)) (take (nat ((page s - 1) * 10 + 10)) xs)"
    using assms by (simp add: paginate_def Let_def js_slice_nonneg)
  also have "\<dots> = take 10 (drop (nat ((page s - 1) * 10)) xs)"
    by (simp only: drop_take d)
  finally show ?thesis .
qed

lemma concat_chunks:
  "concat (map (\<lambda>p. take n (drop ((p - 1) * n) xs)) [1..<Suc k]) = take (k * n) xs"
proof (induction k)
  case 0
  show ?case by simp
next
  case (Suc k)
  have "concat (map (\<lambda>p. take n (drop ((p - 1) * n) xs)) [1..<Suc (Suc k)])
      = take (k * n) xs @ take n (drop (k * n) xs)"
    using Suc.IH by simp
  also have "\<dots> = take (k * n + n) xs"
    by (simp add: take_add)
  finally show ?case by (simp add: add.commute)
qed

lemma totalPages_int:
  assumes "pageSize s = 10"
  shows "totalPages s = max 1 ((int (length (filtered s)) + 9) div 10)"
proof -
  have "\<lceil>(of_nat (length (filtered s)) :: rat) / of_int 10\<rceil>
          = - (- int (length (filtered s)) div 10)"
    using ceiling_divide_eq_div [of "int (length (filtered s))" 10, where ?'a = rat] by simp
  also have "\<dots> = (int (length (filtered s)) + 9) div 10"
    by linarith
  finally show ?thesis using assms by (simp add: totalPages_def)
qed

lemma totalPages_covers:
  assumes "pageSize s = 10"
  shows "length (filtered s) \<le> nat (totalPages s) * 10"
proof -
  have "int (length (filtered s)) \<le> ((int (length (filtered s)) + 9) div 10) * 10"
    by linarith
  also have "\<dots> \<le> totalPages s * 10"
    using totalPages_int [OF assms] by simp
  finally have "int (length (filtered s)) \<le> int (nat (totalPages s) * 10)"
    using totalPages_int [OF assms] by simp
  then show ?thesis by linarith
qed

lemma concat_pages:
  assumes "pageSize s = 10"
  shows "concat (map (\<lambda>p. paginate (s\<lparr>page := int p\<rparr>) (filtered s)) [1..<Suc (nat (totalPages s))])
           = filtered s"
proof -
  have "map (\<lambda>p. paginate (s\<lparr>page := int p\<rparr>) (filtered s)) [1..<Suc (nat (totalPages s))]
      = map (\<lambda>p. take 10 (drop ((p - 1) * 10) (filtered s))) [1..<Suc (nat (totalPages s))]"
  proof (rule map_cong [OF refl])
    fix p assume "p \<in> set [1..<Suc (nat (totalPages s))]"
    then have p: "1 \<le> p" by (simp del: upt_Suc)
    have "paginate (s\<lparr>page := int p\<rparr>) (filtered s)
            = take 10 (drop (nat ((int p - 1) * 10)) (filtered s))"
      using paginate_take_drop [of "s\<lparr>page := int p\<rparr>" "filtered s"] assms p by simp
    moreover have "nat ((int p - 1) * 10) = (p - 1) * 10"
      using p by (simp add: nat_mult_distrib nat_diff_distrib)
    ultimately show "paginate (s\<lparr>page := int p\<rparr>) (filtered s)
                       = take 10 (drop ((p - 1) * 10) (filtered s))"
      by simp
  qed
  then have "concat (map (\<lambda>p. paginate (s\<lparr>page := int p\<rparr>) (filtered s))
               [1..<Suc (nat (totalPages s))])
           = take (nat (totalPages s) * 10) (filtered s)"
    by (simp only: concat_chunks)
  then show ?thesis
    using totalPages_covers [OF assms] by simp
qed

section \<open>Filtering: the conjunction of the criteria\<close>

lemma js_includes_sublist: "js_includes s sub \<longleftrightarrow> sublist sub s"
  by (induction s) (simp_all add: sublist_Cons_right)

lemma toLowerCase_Nil_iff: "toLowerCase s = [] \<longleftrightarrow> s = []"
  by (simp add: toLowerCase_def)

lemma lower_text_field:
  "text_field v \<Longrightarrow> toLowerCase_of (js_or v (Str [])) = Inr (toLowerCase (text_of v))"
  by (cases v) (simp_all add: text_field_def text_of_def js_or_def toLowerCase_def)

lemma filter_err_total:
  "(\<And>x. x \<in> set xs \<Longrightarrow> f x = Inr (P x)) \<Longrightarrow> filter_err f xs = Inr (filter P xs)"
  by (induction xs) simp_all

lemma keep_question_typed:
  assumes "text_field (primary_class_cd_desc x)"
  shows "keep_question m d f x =
           Inr ((m = [] \<or> module x = Str m)
                \<and> (d = [] \<or> js_includes (toLowerCase (text_of (primary_class_cd_desc x))) d)
                \<and> (f = [] \<or> difficulty x = Str f))"
  using lower_text_field [OF assms] by (auto simp: keep_question_def)

lemma text_match_typed:
  assumes "text_field (stem_html x)" and "text_field (skill_desc x)"
  shows "text_match t x =
           Inr (js_includes (toLowerCase (text_of (stem_html x))) t
                \<or> js_includes (toLowerCase (text_of (skill_desc x))) t)"
  using lower_text_field [OF assms(1)] lower_text_field [OF assms(2)]
  by (auto simp: text_match_def)

lemma toLowerCase_char_idem: "toLowerCase_char (toLowerCase_char c) = toLowerCase_char c"
  by (auto simp: toLowerCase_char_def Let_def)

lemma toLowerCase_idem: "toLowerCase (toLowerCase s) = toLowerCase s"
  by (simp add: toLowerCase_def toLowerCase_char_idem)

text \<open>
  C3. The criteria are what \<^verbatim>\<open>apply\<close> derives from the controls: the module and
  difficulty values as they are, the domain and the free text trimmed (and folded to
  lower case, which a case-insensitive match does not see). On a collection whose text
  fields are text, the filter returns exactly the questions that satisfy the
  conjunction of the criteria that are not blank: equality for module and difficulty,
  a case-insensitive substring match for the domain against the domain description and
  for the free text against the stem or the skill description. The result is a
  subsequence of the collection, in its order, and with every criterion blank it is
  the collection. The page is reset to 1.
\<close>

theorem filter_is_conjunction:
  assumes "\<forall>x \<in> set (questions (app w)).
             text_field (primary_class_cd_desc x) \<and> text_field (stem_html x)
             \<and> text_field (skill_desc x)"
  shows "apply_filter c w =
           Inr (w\<lparr>app := (app w)\<lparr>filtered := filter (satisfies (read_controls c))
                                                (questions (app w)),
                                  page := 1\<rparr>\<rparr>)
       \<and> subseq (filter (satisfies (read_controls c)) (questions (app w))) (questions (app w))
       \<and> (module_c (read_controls c) = [] \<and> domain_c (read_controls c) = []
            \<and> difficulty_c (read_controls c) = [] \<and> text_c (read_controls c) = []
            \<longrightarrow> filter (satisfies (read_controls c)) (questions (app w)) = questions (app w))
       \<and> (domain_c (read_controls c) = [] \<longleftrightarrow> trim (f_domain_value c) = [])
       \<and> (text_c (read_controls c) = [] \<longleftrightarrow> trim (q_value c) = [])"
proof -
  let ?qs = "questions (app w)"
  let ?cr = "read_controls c"
  let ?P1 = "\<lambda>x. (module_c ?cr = [] \<or> module x = Str (module_c ?cr))
                \<and> (domain_c ?cr = []
                     \<or> js_includes (toLowerCase (text_of (primary_class_cd_desc x))) (domain_c ?cr))
                \<and> (difficulty_c ?cr = [] \<or> difficulty x = Str (difficulty_c ?cr))"
  let ?P2 = "\<lambda>x. js_includes (toLowerCase (text_of (stem_html x))) (text_c ?cr)
                \<or> js_includes (toLowerCase (text_of (skill_desc x))) (text_c ?cr)"
  have lower: "toLowerCase (domain_c ?cr) = domain_c ?cr" "toLowerCase (text_c ?cr) = text_c ?cr"
    by (simp_all add: read_controls_def toLowerCase_idem)
  have first: "filter_err (keep_question (module_c ?cr) (domain_c ?cr) (difficulty_c ?cr)) ?qs
                 = Inr (filter ?P1 ?qs)"
    by (rule filter_err_total) (use assms in \<open>simp add: keep_question_typed\<close>)
  have second: "filter_err (text_match (text_c ?cr)) (filter ?P1 ?qs)
                  = Inr (filter ?P2 (filter ?P1 ?qs))"
    by (rule filter_err_total) (use assms in \<open>simp add: text_match_typed\<close>)
  have both: "(if text_c ?cr \<noteq> [] then filter ?P2 (filter ?P1 ?qs) else filter ?P1 ?qs)
                = filter (satisfies ?cr) ?qs"
    by (auto simp: satisfies_def contains_ci_def js_includes_sublist lower intro!: filter_cong)
  have "apply_filter c w =
          Inr (w\<lparr>app := (app w)\<lparr>filtered :=
                 (if text_c ?cr \<noteq> [] then filter ?P2 (filter ?P1 ?qs) else filter ?P1 ?qs),
                 page := 1\<rparr>\<rparr>)"
    using first second by (simp add: apply_filter_def Let_def)
  then have a: "apply_filter c w =
          Inr (w\<lparr>app := (app w)\<lparr>filtered := filter (satisfies ?cr) ?qs, page := 1\<rparr>\<rparr>)"
    by (simp only: both)
  have b: "module_c ?cr = [] \<and> domain_c ?cr = [] \<and> difficulty_c ?cr = [] \<and> text_c ?cr = []
            \<longrightarrow> filter (satisfies ?cr) ?qs = ?qs"
    by (simp add: satisfies_def)
  have t: "(domain_c ?cr = [] \<longleftrightarrow> trim (f_domain_value c) = [])"
      "(text_c ?cr = [] \<longleftrightarrow> trim (q_value c) = [])"
    by (simp_all add: read_controls_def toLowerCase_Nil_iff)
  show ?thesis using a b t by simp
qed

theorem filter_is_conjunction_witness:
  "list_all (\<lambda>x. text_field (primary_class_cd_desc x) \<and> text_field (stem_html x)
                  \<and> text_field (skill_desc x)) (questions (app world_three))
   \<and> read_controls controls_algebra
       = \<lparr>text_c = ''linear'', module_c = ''math'', domain_c = ''alg'', difficulty_c = []\<rparr>
   \<and> apply_filter controls_algebra world_three =
       Inr (world_three\<lparr>app := (app world_three)\<lparr>filtered := [sample_question ''q-0001''],
                                                 page := 1\<rparr>\<rparr>)"
proof -
  have h: "\<forall>x \<in> set (questions (app world_three)).
      text_field (primary_class_cd_desc x) \<and> text_field (stem_html x) \<and> text_field (skill_desc x)"
    by (simp add: world_three_def three_questions_def sample_question_def text_field_def)
  have r: "read_controls controls_algebra
       = \<lparr>text_c = ''linear'', module_c = ''math'', domain_c = ''alg'', difficulty_c = []\<rparr>"
    by code_simp
  have f: "filter (satisfies (read_controls controls_algebra)) (questions (app world_three))
             = [sample_question ''q-0001'']"
    unfolding world_three_def by code_simp
  have a: "apply_filter controls_algebra world_three =
       Inr (world_three\<lparr>app := (app world_three)\<lparr>filtered := [sample_question ''q-0001''],
                                                 page := 1\<rparr>\<rparr>)"
    using filter_is_conjunction [OF h, of controls_algebra] by (simp add: f)
  show ?thesis
    using a h r by (simp add: list_all_iff)
qed

section \<open>Normalization: field resolution and discarded records\<close>

lemma toLowerCase_Nil: "toLowerCase [] = []"
  by (simp add: toLowerCase_def)

lemma lower_math: "toLowerCase ''math'' = ''math''"
  by code_simp

lemma lower_legacy_category: "js_includes (toLowerCase ''Math - Algebra'') ''math''"
  by code_simp

lemma module_of_resolved:
  assumes "raw_record x"
  shows "module_of x =
           Inr (first_of [field x ''module'']
                  (Str (if contains_ci (field x ''category'') ''math'' then ''math''
                        else ''reading-writing'')))"
proof (cases "truthy (field x ''module'')")
  case True
  then show ?thesis by (simp add: module_of_def)
next
  case False
  with assms have tf: "text_field (field x ''category'')"
    by (simp add: raw_record_def)
  show ?thesis
  proof (cases "field x ''category''")
    case (Str t)
    then show ?thesis
      using False
      by (simp add: module_of_def contains_ci_def text_of_def lower_math js_includes_sublist
                    toLowerCase_Nil)
  qed (use False tf in \<open>simp_all add: module_of_def contains_ci_def text_of_def text_field_def
                                       lower_math toLowerCase_Nil\<close>)
qed

lemma normalize_resolved:
  assumes "raw_record x"
  shows "\<exists>q. normalize x = Inr q
           \<and> uId q = resolved_uId x
           \<and> module q = first_of [field x ''module'']
                 (Str (if contains_ci (field x ''category'') ''math'' then ''math''
                       else ''reading-writing''))
           \<and> difficulty q = first_of [field x ''difficulty'', field x ''diff''] (Str [])
           \<and> choices q = first_of [field x ''choices'', field x ''options''] Null
           \<and> correct_choice_index q =
                 (if is_number (field x ''correct_choice_index'') then field x ''correct_choice_index''
                  else if is_number (field x ''answer_index'') then field x ''answer_index''
                  else Null)"
  using assms module_of_resolved [OF assms]
  by (simp add: normalize_def raw_record_def resolved_uId_def js_or_def index_of_def)

lemma normalize_items_kept:
  assumes "\<forall>x \<in> set items. raw_record x"
  shows "\<exists>qs. normalize_items items = Inr qs
           \<and> map Inr qs = map normalize (filter (\<lambda>x. truthy (resolved_uId x)) items)"
  using assms
proof (induction items)
  case Nil
  show ?case by (simp add: normalize_items_def)
next
  case (Cons x xs)
  then obtain qs where qs: "normalize_items xs = Inr qs"
      "map Inr qs = map normalize (filter (\<lambda>x. truthy (resolved_uId x)) xs)"
    by auto
  from Cons.prems obtain q where q: "normalize x = Inr q" "uId q = resolved_uId x"
    using normalize_resolved [of x] by auto
  from qs(1) obtain ys where ys: "map_err normalize xs = Inr ys"
      "qs = filter (\<lambda>q. truthy (uId q)) ys"
    by (auto simp: normalize_items_def split: sum.splits)
  have "normalize_items (x # xs) = Inr (if truthy (uId q) then q # qs else qs)"
    using q ys by (simp add: normalize_items_def)
  then show ?case
    using q qs(2) by auto
qed

lemma legacy_normalized:
  assumes "raw_record x" and "legacy_record x"
  shows "\<exists>q. normalize x = Inr q \<and> module q = Str ''math''
           \<and> difficulty q = field x ''diff'' \<and> choices q = field x ''options''
           \<and> correct_choice_index q = field x ''answer_index''"
proof -
  from normalize_resolved [OF assms(1)] obtain q where q: "normalize x = Inr q"
    "module q = first_of [field x ''module'']
                 (Str (if contains_ci (field x ''category'') ''math'' then ''math''
                       else ''reading-writing''))"
    "difficulty q = first_of [field x ''difficulty'', field x ''diff''] (Str [])"
    "choices q = first_of [field x ''choices'', field x ''options''] Null"
    "correct_choice_index q =
                 (if is_number (field x ''correct_choice_index'') then field x ''correct_choice_index''
                  else if is_number (field x ''answer_index'') then field x ''answer_index''
                  else Null)"
    by blast
  have m: "contains_ci (field x ''category'') ''math''"
    using assms(2) lower_legacy_category
    by (simp add: legacy_record_def contains_ci_def text_of_def lower_math
             flip: js_includes_sublist)
  from assms(2) obtain d os where d: "field x ''diff'' = Str d" and os: "field x ''options'' = Arr os"
    by (auto simp: legacy_record_def)
  have "module q = Str ''math''"
    using q(2) m assms(2) by (simp add: legacy_record_def)
  moreover have "difficulty q = field x ''diff''"
    using q(3) d assms(2) by (simp add: legacy_record_def)
  moreover have "choices q = field x ''options''"
    using q(4) os assms(2) by (simp add: legacy_record_def)
  moreover have "correct_choice_index q = field x ''answer_index''"
    using q(5) assms(2) by (simp add: legacy_record_def)
  ultimately show ?thesis using q(1) by blast
qed

text \<open>
  C4. For raw records that are objects with a textual category, normalization
  resolves each canonical field by first-non-empty fallback: \<open>uId\<close> from \<open>uId\<close>, else
  \<open>id\<close>, else \<open>questionId\<close>; \<open>module\<close> from the module field, else \<^verbatim>\<open>math\<close> if the category
  contains \<^verbatim>\<open>math\<close> whatever the case, else \<^verbatim>\<open>reading-writing\<close>; \<open>difficulty\<close> falls back
  to \<open>diff\<close>, \<open>choices\<close> to \<open>options\<close>, and \<open>correct_choice_index\<close> to \<open>answer_index\<close> only
  when that is a number. The normalized collection holds the records whose resolved
  \<open>uId\<close> is not empty (absent and empty identifiers are among the discarded), in order,
  so its length is the number of records less one for each discarded record. A record
  with legacy fields only gets module \<^verbatim>\<open>math\<close> and the values of \<open>diff\<close>, \<open>options\<close> and
  \<open>answer_index\<close>.
\<close>

theorem normalization_resolves_fields:
  assumes "\<forall>x \<in> set items. raw_record x"
  shows "\<exists>qs. normalize_items items = Inr qs
           \<and> map Inr qs = map normalize (filter (\<lambda>x. truthy (resolved_uId x)) items)
           \<and> length qs = length items - length (filter (\<lambda>x. \<not> truthy (resolved_uId x)) items)
           \<and> (\<forall>x \<in> set items. resolved_uId x = Undefined \<or> resolved_uId x = Str []
                 \<longrightarrow> \<not> truthy (resolved_uId x))
           \<and> (\<forall>x \<in> set items. \<exists>q. normalize x = Inr q
                 \<and> uId q = resolved_uId x
                 \<and> module q = first_of [field x ''module'']
                       (Str (if contains_ci (field x ''category'') ''math'' then ''math''
                             else ''reading-writing''))
                 \<and> difficulty q = first_of [field x ''difficulty'', field x ''diff''] (Str [])
                 \<and> choices q = first_of [field x ''choices'', field x ''options''] Null
                 \<and> correct_choice_index q =
                       (if is_number (field x ''correct_choice_index'')
                        then field x ''correct_choice_index''
                        else if is_number (field x ''answer_index'') then field x ''answer_index''
                        else Null))
           \<and> (\<forall>x \<in> set items. legacy_record x \<longrightarrow>
                 (\<exists>q. normalize x = Inr q \<and> module q = Str ''math''
                   \<and> difficulty q = field x ''diff'' \<and> choices q = field x ''options''
                   \<and> correct_choice_index q = field x ''answer_index''))"
proof -
  from normalize_items_kept [OF assms] obtain qs where qs: "normalize_items items = Inr qs"
      "map Inr qs = map normalize (filter (\<lambda>x. truthy (resolved_uId x)) items)"
    by blast
  have "length qs = length (filter (\<lambda>x. truthy (resolved_uId x)) items)"
    using qs(2) by (metis length_map)
  then have len: "length qs = length items - length (filter (\<lambda>x. \<not> truthy (resolved_uId x)) items)"
    using sum_length_filter_compl [of "\<lambda>x. truthy (resolved_uId x)" items] by simp
  have falsy: "\<forall>x \<in> set items. resolved_uId x = Undefined \<or> resolved_uId x = Str []
                 \<longrightarrow> \<not> truthy (resolved_uId x)"
    by auto
  show ?thesis
    using qs len falsy assms normalize_resolved legacy_normalized by blast
qed

theorem normalization_resolves_fields_witness:
  "list_all raw_record [raw_legacy, raw_anonymous, raw_canonical]
   \<and> legacy_record raw_legacy
   \<and> resolved_uId raw_anonymous = Undefined
   \<and> (\<exists>qs. normalize_items [raw_legacy, raw_anonymous, raw_canonical] = Inr qs \<and> length qs = 2)
   \<and> (\<exists>q. normalize raw_legacy = Inr q \<and> module q = Str ''math'' \<and> difficulty q = Str ''H''
          \<and> choices q = Arr [Str ''3'', Str ''4'', Str ''5''] \<and> correct_choice_index q = Num 1)"
proof -
  have r: "raw_record raw_legacy" "raw_record raw_anonymous" "raw_record raw_canonical"
    by (simp_all add: raw_record_def raw_legacy_def raw_anonymous_def raw_canonical_def field_def
                      text_field_def)
  then have h: "\<forall>x \<in> set [raw_legacy, raw_anonymous, raw_canonical]. raw_record x"
    by simp
  have l: "legacy_record raw_legacy"
    by (simp add: legacy_record_def raw_legacy_def field_def)
  have u: "resolved_uId raw_legacy = Str ''L-17''" "resolved_uId raw_anonymous = Undefined"
      "resolved_uId raw_canonical = Str ''q-0001''"
    by (simp_all add: resolved_uId_def raw_legacy_def raw_anonymous_def raw_canonical_def field_def)
  have f: "field raw_legacy ''diff'' = Str ''H''"
      "field raw_legacy ''options'' = Arr [Str ''3'', Str ''4'', Str ''5'']"
      "field raw_legacy ''answer_index'' = Num 1"
    by (simp_all add: raw_legacy_def field_def)
  note th = normalization_resolves_fields [OF h]
  from th obtain qs where qs: "normalize_items [raw_legacy, raw_anonymous, raw_canonical] = Inr qs"
      "length qs = length [raw_legacy, raw_anonymous, raw_canonical]
         - length (filter (\<lambda>x. \<not> truthy (resolved_uId x)) [raw_legacy, raw_anonymous, raw_canonical])"
    by blast
  have a: "\<exists>qs. normalize_items [raw_legacy, raw_anonymous, raw_canonical] = Inr qs \<and> length qs = 2"
    using qs u by simp
  have m: "raw_legacy \<in> set [raw_legacy, raw_anonymous, raw_canonical]"
    by simp
  from th l m have "\<exists>q. normalize raw_legacy = Inr q \<and> module q = Str ''math''
                   \<and> difficulty q = field raw_legacy ''diff'' \<and> choices q = field raw_legacy ''options''
                   \<and> correct_choice_index q = field raw_legacy ''answer_index''"
    by blast
  then have b: "\<exists>q. normalize raw_legacy = Inr q \<and> module q = Str ''math'' \<and> difficulty q = Str ''H''
          \<and> choices q = Arr [Str ''3'', Str ''4'', Str ''5''] \<and> correct_choice_index q = Num 1"
    by (simp add: f)
  show ?thesis
    using r l u(2) a b by simp
qed

section \<open>The history: what is kept in memory and what is stored\<close>

lemma last_200: "js_slice_from xs (- 200) = drop (length xs - 200) xs"
proof -
  have "rel_index (int (length xs)) (- 200) = int (length xs - 200)"
    by (auto simp: rel_index_def max_def)
  then show ?thesis
    by (simp add: js_slice_from_def js_slice_def Let_def rel_index_def)
qed

lemma setItem_twice: "setItem (setItem ls k v) k v' = setItem ls k v'"
  by (simp add: setItem_def)

lemma setItem_same: "setItem ls k v k = Some v"
  by (simp add: setItem_def)

lemma choice_click_array:
  assumes "history (app w) = Arr h"
  shows "choice_click q i now w =
           (if Num i = correct_choice_index q then ''correct'' else ''incorrect'',
            Inr (w\<lparr>app := (app w)\<lparr>history := Arr (h @ [attempt (q, i, now)])\<rparr>,
                   localStorage := setItem (localStorage w) ''history''
                     (stored_json (Arr (js_slice_from (h @ [attempt (q, i, now)]) (- 200))))\<rparr>))"
  using assms by (simp add: choice_click_def saveHistory_def attempt_def Let_def)

lemma choice_clicks_array:
  assumes "history (app w) = Arr h" and "cs \<noteq> []"
  shows "choice_clicks cs w =
           w\<lparr>app := (app w)\<lparr>history := Arr (h @ map attempt cs)\<rparr>,
             localStorage := setItem (localStorage w) ''history''
               (stored_json (Arr (js_slice_from (h @ map attempt cs) (- 200))))\<rparr>"
  using assms
proof (induction cs arbitrary: w h)
  case Nil
  then show ?case by simp
next
  case (Cons c cs)
  obtain q i now where c: "c = (q, i, now)" by (cases c) auto
  let ?w1 = "w\<lparr>app := (app w)\<lparr>history := Arr (h @ [attempt c])\<rparr>,
                 localStorage := setItem (localStorage w) ''history''
                   (stored_json (Arr (js_slice_from (h @ [attempt c]) (- 200))))\<rparr>"
  have step: "choice_clicks (c # cs) w = choice_clicks cs ?w1"
    using choice_click_array [OF Cons.prems(1), of q i now] c by simp
  show ?case
  proof (cases "cs = []")
    case True
    then show ?thesis using step by simp
  next
    case False
    have "history (app ?w1) = Arr (h @ [attempt c])" by simp
    from Cons.IH [OF this False] show ?thesis
      using step by (simp add: setItem_twice)
  qed
qed

text \<open>
  C5. From any in-memory history list, after more than 200 answer-choice clicks the
  value stored under \<^verbatim>\<open>history\<close> is the serialization of exactly 200 attempts: the 200
  most recent ones, in the order of the clicks. The in-memory list holds all of them.
\<close>

theorem history_persist_last_200:
  assumes "history (app w) = Arr h" and "200 < length cs"
  shows "localStorage (choice_clicks cs w) ''history''
           = Some (stored_json (Arr (drop (length cs - 200) (map attempt cs))))
       \<and> length (drop (length cs - 200) (map attempt cs)) = 200
       \<and> history (app (choice_clicks cs w)) = Arr (h @ map attempt cs)"
proof -
  from assms(2) have ne: "cs \<noteq> []" by auto
  have d: "drop (length (h @ map attempt cs) - 200) (h @ map attempt cs)
             = drop (length cs - 200) (map attempt cs)"
    using assms(2) by simp
  show ?thesis
    using assms(2) by (simp add: choice_clicks_array [OF assms(1) ne] last_200 d setItem_same)
qed

theorem history_persist_last_200_witness:
  "history (app world_three) = Arr []
   \<and> 200 < length (replicate 201 (sample_question ''q-0001'', 1 :: int, 1700000000000 :: int))
   \<and> localStorage
        (choice_clicks (replicate 201 (sample_question ''q-0001'', 1, 1700000000000)) world_three)
        ''history''
       = Some (stored_json (Arr (replicate 200 (attempt (sample_question ''q-0001'', 1, 1700000000000)))))
   \<and> history
        (app (choice_clicks (replicate 201 (sample_question ''q-0001'', 1, 1700000000000)) world_three))
       = Arr (replicate 201 (attempt (sample_question ''q-0001'', 1, 1700000000000)))"
proof -
  have h1: "history (app world_three) = Arr []"
    by (simp add: world_three_def)
  have h2: "200 < length (replicate 201 (sample_question ''q-0001'', 1 :: int, 1700000000000 :: int))"
    by simp
  show ?thesis
    using history_persist_last_200 [OF h1 h2] h1 by simp
qed

text \<open>
  C9. \<^verbatim>\<open>saveHistory\<close> leaves the state as it was: it writes the last 200 entries of the
  in-memory list to storage and the list itself is unchanged. So over a session the
  in-memory list grows by one with every click, beyond 200 entries, while the stored
  copy never holds more than 200.
\<close>

theorem save_history_keeps_memory:
  "(\<forall>w'. saveHistory w = Inr w' \<longrightarrow> app w' = app w)
   \<and> (\<forall>h. history (app w) = Arr h \<longrightarrow>
         (\<exists>w'. saveHistory w = Inr w' \<and> history (app w') = Arr h
            \<and> localStorage w' ''history'' = Some (stored_json (Arr (drop (length h - 200) h)))))
   \<and> (\<forall>h. history (app w) = Arr h \<and> cs \<noteq> [] \<longrightarrow>
         history (app (choice_clicks cs w)) = Arr (h @ map attempt cs)
         \<and> length (h @ map attempt cs) = length h + length cs
         \<and> localStorage (choice_clicks cs w) ''history''
             = Some (stored_json (Arr (drop (length h + length cs - 200) (h @ map attempt cs))))
         \<and> length (drop (length h + length cs - 200) (h @ map attempt cs))
             = min 200 (length h + length cs))"
proof -
  have a: "\<forall>w'. saveHistory w = Inr w' \<longrightarrow> app w' = app w"
    by (auto simp: saveHistory_def split: jsval.splits)
  have b: "\<forall>h. history (app w) = Arr h \<longrightarrow>
         (\<exists>w'. saveHistory w = Inr w' \<and> history (app w') = Arr h
            \<and> localStorage w' ''history'' = Some (stored_json (Arr (drop (length h - 200) h))))"
    by (simp add: saveHistory_def last_200 setItem_same)
  have c: "\<forall>h. history (app w) = Arr h \<and> cs \<noteq> [] \<longrightarrow>
         history (app (choice_clicks cs w)) = Arr (h @ map attempt cs)
         \<and> length (h @ map attempt cs) = length h + length cs
         \<and> localStorage (choice_clicks cs w) ''history''
             = Some (stored_json (Arr (drop (length h + length cs - 200) (h @ map attempt cs))))
         \<and> length (drop (length h + length cs - 200) (h @ map attempt cs))
             = min 200 (length h + length cs)"
    by (auto simp: choice_clicks_array last_200 setItem_same)
  show ?thesis using a b c by blast
qed

theorem save_history_keeps_memory_witness:
  "history (app world_three) = Arr []
   \<and> history
        (app (choice_clicks (replicate 250 (sample_question ''q-0002'', 0, 1700000000000)) world_three))
       = Arr (replicate 250 (attempt (sample_question ''q-0002'', 0, 1700000000000)))
   \<and> localStorage
        (choice_clicks (replicate 250 (sample_question ''q-0002'', 0, 1700000000000)) world_three)
        ''history''
       = Some (stored_json (Arr (replicate 200 (attempt (sample_question ''q-0002'', 0, 1700000000000)))))"
proof -
  have h1: "history (app world_three) = Arr []"
    by (simp add: world_three_def)
  have h2: "replicate 250 (sample_question ''q-0002'', 0 :: int, 1700000000000 :: int) \<noteq> []"
    by simp
  show ?thesis
    using save_history_keeps_memory
            [of world_three "replicate 250 (sample_question ''q-0002'', 0, 1700000000000)"] h1 h2
    by simp
qed

text \<open>
  C10. A question whose \<open>correct_choice_index\<close> is \<^verbatim>\<open>null\<close> marks every clicked choice
  \<^verbatim>\<open>incorrect\<close>, whatever its index, and every attempt the click records has
  \<open>correct = false\<close>. Normalization gives \<^verbatim>\<open>null\<close> exactly when neither
  \<open>correct_choice_index\<close> nor \<open>answer_index\<close> of the raw record is a number.
\<close>

theorem null_answer_never_correct:
  assumes "correct_choice_index q = Null"
  shows "fst (choice_click q i now w) = ''incorrect''
       \<and> (\<forall>h. history (app w) = Arr h \<longrightarrow>
             (\<exists>w'. snd (choice_click q i now w) = Inr w'
                \<and> history (app w') =
                    Arr (h @ [Obj [(''id'', uId q), (''correct'', Bool False), (''ts'', Num now)]])))
       \<and> (\<forall>w'. snd (choice_click q i now w) = Inr w' \<longrightarrow>
             (\<exists>h. history (app w') =
                    Arr (h @ [Obj [(''id'', uId q), (''correct'', Bool False), (''ts'', Num now)]])))
       \<and> (\<forall>x q'. normalize x = Inr q' \<longrightarrow>
             (correct_choice_index q' = Null
                \<longleftrightarrow> \<not> is_number (field x ''correct_choice_index'')
                    \<and> \<not> is_number (field x ''answer_index'')))"
proof -
  have a: "fst (choice_click q i now w) = ''incorrect''"
    using assms by (simp add: choice_click_def)
  have b: "\<forall>h. history (app w) = Arr h \<longrightarrow>
             (\<exists>w'. snd (choice_click q i now w) = Inr w'
                \<and> history (app w') =
                    Arr (h @ [Obj [(''id'', uId q), (''correct'', Bool False), (''ts'', Num now)]]))"
    using assms by (simp add: choice_click_array attempt_def)
  have c: "\<forall>w'. snd (choice_click q i now w) = Inr w' \<longrightarrow>
             (\<exists>h. history (app w') =
                    Arr (h @ [Obj [(''id'', uId q), (''correct'', Bool False), (''ts'', Num now)]]))"
  proof (intro allI impI)
    fix w' assume r: "snd (choice_click q i now w) = Inr w'"
    then obtain h where h: "history (app w) = Arr h"
      by (cases "history (app w)") (simp_all add: choice_click_def)
    with b r show "\<exists>h. history (app w') =
                    Arr (h @ [Obj [(''id'', uId q), (''correct'', Bool False), (''ts'', Num now)]])"
      by auto
  qed
  have d: "\<forall>x q'. normalize x = Inr q' \<longrightarrow>
             (correct_choice_index q' = Null
                \<longleftrightarrow> \<not> is_number (field x ''correct_choice_index'')
                    \<and> \<not> is_number (field x ''answer_index''))"
  proof (intro allI impI)
    fix x q' assume n: "normalize x = Inr q'"
    then have "correct_choice_index q' = index_of x"
      by (auto simp: normalize_def split: if_splits sum.splits)
    moreover have "index_of x = Null \<longleftrightarrow> \<not> is_number (field x ''correct_choice_index'')
                    \<and> \<not> is_number (field x ''answer_index'')"
      by (cases "field x ''correct_choice_index''"; cases "field x ''answer_index''")
         (simp_all add: index_of_def)
    ultimately show "correct_choice_index q' = Null
                \<longleftrightarrow> \<not> is_number (field x ''correct_choice_index'')
                    \<and> \<not> is_number (field x ''answer_index'')"
      by simp
  qed
  show ?thesis using a b c d by blast
qed

theorem null_answer_never_correct_witness:
  "correct_choice_index question_no_key = Null
   \<and> fst (choice_click question_no_key 2 1700000000000 world_three) = ''incorrect''
   \<and> (\<exists>w'. snd (choice_click question_no_key 2 1700000000000 world_three) = Inr w'
          \<and> history (app w') =
              Arr [Obj [(''id'', Str ''q-0009''), (''correct'', Bool False),
                        (''ts'', Num 1700000000000)]])"
proof -
  have h: "correct_choice_index question_no_key = Null"
    by (simp add: question_no_key_def)
  have w: "history (app world_three) = Arr []"
    by (simp add: world_three_def)
  have u: "uId question_no_key = Str ''q-0009''"
    by (simp add: question_no_key_def sample_question_def)
  show ?thesis
    using null_answer_never_correct [OF h, of 2 1700000000000 world_three] h w u by simp
qed

section \<open>The star toggle\<close>

lemma star_click_unfold:
  "star_click q w =
     w\<lparr>app := (app w)\<lparr>starred :=
            (if uId q \<in> set (starred (app w)) then removeAll (uId q) (starred (app w))
             else starred (app w) @ [uId q])\<rparr>,
       localStorage := setItem (localStorage w) ''starred''
         (stored_json (Arr (if uId q \<in> set (starred (app w)) then removeAll (uId q) (starred (app w))
                            else starred (app w) @ [uId q])))\<rparr>"
  by (simp add: star_click_def saveStarred_def Set_has_def Set_add_def Set_delete_def Let_def)







section \<open>Loading the persisted collections\<close>

lemma parse_empty_array: "JSON_parse ''[]'' = Inr (Arr [])"
  by code_simp

lemma Set_new_empty: "Set_new (Arr []) = Inr []"
  by (simp add: Set_new_def)

lemma getItem_or_missing: "ls k = None \<or> ls k = Some [] \<Longrightarrow> getItem_or ls k d = d"
  by (auto simp: getItem_or_def)

lemma getItem_or_present: "ls k = Some t \<Longrightarrow> t \<noteq> [] \<Longrightarrow> getItem_or ls k d = t"
  by (simp add: getItem_or_def)

text \<open>
  C1, as stated, fails: a stored string that is not valid JSON makes the initializer
  throw, under either key.
\<close>

theorem load_malformed_counterexample:
  "JSON_parse ''not json'' = Inl SyntaxError
   \<and> init_state (Map.empty(''starred'' \<mapsto> ''not json'')) = Inl SyntaxError
   \<and> init_state (Map.empty(''history'' \<mapsto> ''not json'')) = Inl SyntaxError"
proof -
  have p: "JSON_parse ''not json'' = Inl SyntaxError"
    by code_simp
  have a: "init_state (Map.empty(''starred'' \<mapsto> ''not json'')) = Inl SyntaxError"
    by (simp add: init_state_def getItem_or_def p)
  have b: "init_state (Map.empty(''history'' \<mapsto> ''not json'')) = Inl SyntaxError"
    by (simp add: init_state_def getItem_or_def p parse_empty_array Set_new_empty)
  show ?thesis using p a b by simp
qed

text \<open>
  C1, amended. A missing value under \<^verbatim>\<open>starred\<close> (or \<^verbatim>\<open>history\<close>), or the empty string,
  loads as the empty set (or the empty list); with both missing the initial state is
  the empty one. A stored string that is not valid JSON makes \<^verbatim>\<open>JSON.parse\<close> throw a
  SyntaxError that nothing catches: the initializer produces no state.
\<close>

theorem load_missing_or_malformed:
  "((ls ''starred'' = None \<or> ls ''starred'' = Some []) \<longrightarrow>
      (\<forall>s. init_state ls = Inr s \<longrightarrow> starred s = []))
   \<and> ((ls ''history'' = None \<or> ls ''history'' = Some []) \<longrightarrow>
      (\<forall>s. init_state ls = Inr s \<longrightarrow> history s = Arr []))
   \<and> ((ls ''starred'' = None \<or> ls ''starred'' = Some [])
        \<and> (ls ''history'' = None \<or> ls ''history'' = Some []) \<longrightarrow>
      init_state ls = Inr \<lparr>questions = [], filtered = [], pageSize = 10, page = 1,
                            starred = [], history = Arr []\<rparr>)
   \<and> (\<forall>t. ls ''starred'' = Some t \<and> t \<noteq> [] \<and> JSON_parse t = Inl SyntaxError \<longrightarrow>
          init_state ls = Inl SyntaxError)
   \<and> (\<forall>t. ls ''history'' = Some t \<and> t \<noteq> [] \<and> JSON_parse t = Inl SyntaxError \<longrightarrow>
          (\<exists>e. init_state ls = Inl e))"
proof -
  have a: "(ls ''starred'' = None \<or> ls ''starred'' = Some []) \<longrightarrow>
      (\<forall>s. init_state ls = Inr s \<longrightarrow> starred s = [])"
    by (auto simp: init_state_def getItem_or_missing parse_empty_array Set_new_empty
             split: sum.splits)
  have b: "(ls ''history'' = None \<or> ls ''history'' = Some []) \<longrightarrow>
      (\<forall>s. init_state ls = Inr s \<longrightarrow> history s = Arr [])"
    by (auto simp: init_state_def getItem_or_missing parse_empty_array split: sum.splits)
  have c: "(ls ''starred'' = None \<or> ls ''starred'' = Some [])
        \<and> (ls ''history'' = None \<or> ls ''history'' = Some []) \<longrightarrow>
      init_state ls = Inr \<lparr>questions = [], filtered = [], pageSize = 10, page = 1,
                            starred = [], history = Arr []\<rparr>"
    by (auto simp: init_state_def getItem_or_missing parse_empty_array Set_new_empty)
  have d: "\<forall>t. ls ''starred'' = Some t \<and> t \<noteq> [] \<and> JSON_parse t = Inl SyntaxError \<longrightarrow>
          init_state ls = Inl SyntaxError"
    by (simp add: init_state_def getItem_or_present)
  have e: "\<forall>t. ls ''history'' = Some t \<and> t \<noteq> [] \<and> JSON_parse t = Inl SyntaxError \<longrightarrow>
          (\<exists>e. init_state ls = Inl e)"
    by (auto simp: init_state_def getItem_or_present split: sum.splits)
  show ?thesis using a b c d e by blast
qed

theorem load_missing_or_malformed_witness:
  "localStorage world_start ''starred'' = None \<and> localStorage world_start ''history'' = None
   \<and> init_state (localStorage world_start) = Inr (app world_start)
   \<and> JSON_parse ''[1,2'' = Inl SyntaxError
   \<and> init_state (Map.empty(''starred'' \<mapsto> ''[1,2'')) = Inl SyntaxError"
proof -
  have n: "localStorage world_start ''starred'' = None" "localStorage world_start ''history'' = None"
    by (simp_all add: world_start_def)
  have p: "JSON_parse ''[1,2'' = Inl SyntaxError"
    by code_simp
  have m: "(Map.empty(''starred'' \<mapsto> ''[1,2'')) ''starred'' = Some ''[1,2''" "''[1,2'' \<noteq> []"
    by simp_all
  have a: "init_state (localStorage world_start) = Inr (app world_start)"
    using load_missing_or_malformed [of "localStorage world_start"] n
    by (simp add: world_start_def)
  have b: "init_state (Map.empty(''starred'' \<mapsto> ''[1,2'')) = Inl SyntaxError"
    using load_missing_or_malformed [of "Map.empty(''starred'' \<mapsto> ''[1,2'')"] m p by blast
  show ?thesis using n p a b by simp
qed

section \<open>The fallback manifest\<close>

lemma loadManifest_falls_back:
  assumes "n ''data/manifest.json'' = Failed
           \<or> (\<exists>body. n ''data/manifest.json'' = Response False body)
           \<or> (\<exists>body. n ''data/manifest.json'' = Response True body
                 \<and> JSON_parse body = Inl SyntaxError)"
  shows "loadManifest n = Inr fallback_manifest"
  using assms by (auto simp: loadManifest_def fetch_manifest_def)

lemma loadManifest_returns:
  "loadManifest n = Inl Unsupported \<or> (\<exists>m. loadManifest n = Inr m)"
  by (cases "fetch_manifest n") (auto simp: loadManifest_def split: error.splits)

lemma show_int_1: "show_int 1 = ''1''"
  by code_simp

lemma fallback_chunk_url:
  "loadAllChunks n fallback_manifest =
     (case n ''data/data/sample.json'' of
        Failed \<Rightarrow> Inl NetworkError
      | Response ok body \<Rightarrow>
          (case JSON_parse body of Inl e \<Rightarrow> Inl e | Inr arr \<Rightarrow> js_iter arr))"
  by (simp add: loadAllChunks_def fallback_manifest_def split: fetch_result.splits sum.splits)

text \<open>
  C7. On a network failure \<^verbatim>\<open>loadManifest\<close> returns the fallback manifest, whose chunk
  path is \<^verbatim>\<open>data/sample.json\<close>; \<^verbatim>\<open>loadAllChunks\<close> prefixes every path with \<^verbatim>\<open>data/\<close> and so
  asks for \<^verbatim>\<open>data/data/sample.json\<close>. On a host that holds the sample where the README
  puts it, that request is answered 404, the body does not parse, and \<^verbatim>\<open>main\<close> ends
  with the SyntaxError: no question is loaded. A manifest naming the chunk
  \<^verbatim>\<open>sample.json\<close> loads the sample from the same host.
\<close>

theorem fallback_sample_not_loaded:
  "loadManifest static_host = Inr fallback_manifest
   \<and> static_host ''data/sample.json'' = Response True (stored_json (Arr [raw_canonical]))
   \<and> static_host ''data/data/sample.json'' = Response False ''<h1>Not Found</h1>''
   \<and> loadAllChunks static_host fallback_manifest = Inl SyntaxError
   \<and> main static_host world_start = Inl SyntaxError
   \<and> loadAllChunks static_host (Obj [(''chunks'', Arr [Obj [(''path'', Str ''sample.json'')]])])
       = Inr [raw_canonical]"
proof -
  have rt: "JSON_parse (stored_json (Arr [raw_canonical])) = Inr (Arr [raw_canonical])"
    by code_simp
  have g: "loadAllChunks static_host (Obj [(''chunks'', Arr [Obj [(''path'', Str ''sample.json'')]])])
       = Inr [raw_canonical]"
    by (simp add: loadAllChunks_def static_host_def rt)
  have m: "loadManifest static_host = Inr fallback_manifest"
    by (rule loadManifest_falls_back) (simp add: static_host_def)
  have h: "static_host ''data/data/sample.json'' = Response False ''<h1>Not Found</h1>''"
    by (simp add: static_host_def)
  have p: "JSON_parse ''<h1>Not Found</h1>'' = Inl SyntaxError"
    by code_simp
  have c: "loadAllChunks static_host fallback_manifest = Inl SyntaxError"
    by (simp add: fallback_chunk_url h p)
  show ?thesis
    using m h c g by (simp add: main_def) (simp add: static_host_def)
qed

section \<open>The shuffle\<close>







section \<open>The page stays within the pages of the subset\<close>

lemma totalPages_ge_1: "1 \<le> totalPages s"
  by (simp add: totalPages_def)

lemma totalPages_cong:
  "filtered s' = filtered s \<Longrightarrow> pageSize s' = pageSize s \<Longrightarrow> totalPages s' = totalPages s"
  by (simp add: totalPages_def)

lemma apply_filter_page:
  "apply_filter c w = Inr w' \<Longrightarrow> page (app w') = 1 \<and> pageSize (app w') = pageSize (app w)
     \<and> questions (app w') = questions (app w)"
  by (auto simp: apply_filter_def Let_def split: sum.splits if_splits)

lemma shuffle_page:
  "shufflePractice rnd w = Inr w' \<Longrightarrow> page (app w') = 1 \<and> pageSize (app w') = pageSize (app w)
     \<and> questions (app w') = questions (app w)"
  by (auto simp: shufflePractice_def Let_def split: sum.splits)

lemma choice_click_app:
  "snd (choice_click q i now w) = Inr w' \<Longrightarrow>
     page (app w') = page (app w) \<and> pageSize (app w') = pageSize (app w)
     \<and> filtered (app w') = filtered (app w) \<and> questions (app w') = questions (app w)"
  by (cases "history (app w)")
     (auto simp: choice_click_def saveHistory_def Let_def split: sum.splits)

lemma handle_page_in_range:
  assumes "page_in_range w"
  shows "page_in_range (handle e w)"
proof (cases e)
  case (FilterChange c)
  show ?thesis
  proof (cases "apply_filter c w")
    case (Inl err)
    then show ?thesis using assms FilterChange by simp
  next
    case (Inr w')
    then show ?thesis
      using assms FilterChange apply_filter_page [OF Inr] totalPages_ge_1 [of "app w'"]
      by (simp add: page_in_range_def)
  qed
next
  case PrevPage
  have "totalPages (prevPage (app w)) = totalPages (app w)"
    by (rule totalPages_cong) (simp_all add: prevPage_def)
  then show ?thesis
    using assms PrevPage by (simp add: page_in_range_def) (simp add: prevPage_def)
next
  case NextPage
  have "totalPages (nextPage (app w)) = totalPages (app w)"
    by (rule totalPages_cong) (simp_all add: nextPage_def)
  then show ?thesis
    using assms NextPage totalPages_ge_1 [of "app w"]
    by (simp add: page_in_range_def) (simp add: nextPage_def)
next
  case (Shuffle rnd)
  show ?thesis
  proof (cases "shufflePractice rnd w")
    case (Inl err)
    then show ?thesis using assms Shuffle by simp
  next
    case (Inr w')
    then show ?thesis
      using assms Shuffle shuffle_page [OF Inr] totalPages_ge_1 [of "app w'"]
      by (simp add: page_in_range_def)
  qed
next
  case ShowStarred
  then show ?thesis
    using assms totalPages_ge_1 by (simp add: page_in_range_def showStarred_def)
next
  case (StarClick q)
  have "totalPages (app (star_click q w)) = totalPages (app w)"
    by (rule totalPages_cong) (simp_all add: star_click_unfold)
  then show ?thesis
    using assms StarClick by (simp add: page_in_range_def) (simp add: star_click_unfold)
next
  case (ChoiceClick q i now)
  show ?thesis
  proof (cases "snd (choice_click q i now w)")
    case (Inl err)
    then show ?thesis using assms ChoiceClick by simp
  next
    case (Inr w')
    have "totalPages (app w') = totalPages (app w)"
      by (rule totalPages_cong) (simp_all add: choice_click_app [OF Inr])
    then show ?thesis
      using assms ChoiceClick Inr choice_click_app [OF Inr] by (simp add: page_in_range_def)
  qed
qed

lemma handle_nothing_loaded:
  assumes "nothing_loaded w"
  shows "nothing_loaded (handle e w)"
proof (cases e)
  case (FilterChange c)
  then show ?thesis
    using assms by (simp add: nothing_loaded_def apply_filter_def Let_def)
next
  case PrevPage
  then show ?thesis using assms by (simp add: nothing_loaded_def prevPage_def)
next
  case NextPage
  then show ?thesis
    using assms by (simp add: nothing_loaded_def nextPage_def totalPages_def)
next
  case (Shuffle rnd)
  then show ?thesis
    using assms by (simp add: nothing_loaded_def shufflePractice_def Let_def js_slice_def)
next
  case ShowStarred
  then show ?thesis using assms by (simp add: nothing_loaded_def showStarred_def)
next
  case (StarClick q)
  then show ?thesis using assms by (simp add: nothing_loaded_def star_click_unfold)
next
  case (ChoiceClick q i now)
  show ?thesis
  proof (cases "snd (choice_click q i now w)")
    case (Inl err)
    then show ?thesis using assms ChoiceClick by simp
  next
    case (Inr w')
    then show ?thesis
      using assms ChoiceClick choice_click_app [OF Inr] by (simp add: nothing_loaded_def)
  qed
qed

lemma events_page_in_range:
  "page_in_range w \<Longrightarrow> page_in_range (foldl (\<lambda>w e. handle e w) w es)"
  by (induction es arbitrary: w) (simp_all add: handle_page_in_range)

lemma events_nothing_loaded:
  "nothing_loaded w \<Longrightarrow> nothing_loaded (foldl (\<lambda>w e. handle e w) w es)"
  by (induction es arbitrary: w) (simp_all add: handle_nothing_loaded)

lemma init_nothing_loaded:
  "init_state ls = Inr s \<Longrightarrow> nothing_loaded \<lparr>app = s, localStorage = ls\<rparr>"
  by (auto simp: init_state_def nothing_loaded_def split: sum.splits)

lemma main_page_in_range:
  assumes "nothing_loaded w"
  shows "page_in_range (case main n w of Inl e \<Rightarrow> w | Inr w' \<Rightarrow> w')"
proof (cases "main n w")
  case (Inl e)
  then show ?thesis
    using assms by (simp add: nothing_loaded_def page_in_range_def totalPages_def)
next
  case (Inr w')
  then obtain qs where "w' = w\<lparr>app := (app w)\<lparr>questions := qs, filtered := qs\<rparr>\<rparr>"
    by (auto simp: main_def split: sum.splits)
  then show ?thesis
    using assms Inr totalPages_ge_1 [of "app w'"]
    by (simp add: nothing_loaded_def page_in_range_def)
qed

lemma session_page_in_range:
  assumes "session ls n early late = Inr w"
  shows "page_in_range w"
proof -
  from assms obtain s where s: "init_state ls = Inr s"
    by (auto simp: session_def split: sum.splits)
  let ?w1 = "foldl (\<lambda>w e. handle e w) \<lparr>app = s, localStorage = ls\<rparr> early"
  let ?w2 = "case main n ?w1 of Inl e \<Rightarrow> ?w1 | Inr w' \<Rightarrow> w'"
  have w: "w = foldl (\<lambda>w e. handle e w) ?w2 late"
    using assms s by (simp add: session_def Let_def)
  have "nothing_loaded ?w1"
    by (rule events_nothing_loaded) (rule init_nothing_loaded [OF s])
  then have "page_in_range ?w2"
    by (rule main_page_in_range)
  then show ?thesis
    unfolding w by (rule events_page_in_range)
qed

lemma session_returns:
  "init_state ls = Inr s \<Longrightarrow> \<exists>w. session ls n early late = Inr w"
  by (simp add: session_def Let_def)

lemma load_nothing_stored:
  "\<exists>s. init_state Map.empty = Inr s"
  by (simp add: init_state_def getItem_or_def parse_empty_array Set_new_empty)

text \<open>
  C2. With the page size 10 of the program and a 1-based page, the items of the
  current page are \<open>subset[(page-1)*10 : page*10]\<close>; the number of pages is
  \<open>max(1, ceil(length / 10))\<close>; previous never goes below 1 and next never goes above
  the number of pages, so a page within \<open>[1, totalPages]\<close> stays there, and stays put
  at the boundary it would pass; the pages 1 to \<open>totalPages\<close>, one after the other,
  are the subset; and in every session, whatever the events and whenever the load
  completes, the page is within \<open>[1, totalPages]\<close>.
\<close>

theorem pages_partition_subset:
  assumes "pageSize s = 10" and "1 \<le> page s"
  shows "paginate s (filtered s)
           = drop (nat ((page s - 1) * 10)) (take (nat (page s * 10)) (filtered s))
       \<and> totalPages s = max 1 \<lceil>(of_nat (length (filtered s)) :: rat) / 10\<rceil>
       \<and> 1 \<le> page (prevPage s) \<and> 1 \<le> page (nextPage s)
       \<and> page (nextPage s) \<le> totalPages s
       \<and> (page s \<le> totalPages s \<longrightarrow> page (prevPage s) \<le> totalPages s)
       \<and> (page s = 1 \<longrightarrow> page (prevPage s) = 1)
       \<and> (page s = totalPages s \<longrightarrow> page (nextPage s) = totalPages s)
       \<and> concat (map (\<lambda>p. paginate (s\<lparr>page := int p\<rparr>) (filtered s))
                    [1..<Suc (nat (totalPages s))]) = filtered s
       \<and> (\<forall>ls n early late w. session ls n early late = Inr w \<longrightarrow> page_in_range w)"
proof -
  have a: "paginate s (filtered s)
             = drop (nat ((page s - 1) * 10)) (take (nat (page s * 10)) (filtered s))"
    using assms by (simp add: paginate_def Let_def js_slice_nonneg algebra_simps)
  have b: "totalPages s = max 1 \<lceil>(of_nat (length (filtered s)) :: rat) / 10\<rceil>"
    using assms(1) by (simp add: totalPages_def)
  have t: "1 \<le> totalPages s"
    by (simp add: totalPages_def)
  have c: "1 \<le> page (prevPage s)" "1 \<le> page (nextPage s)" "page (nextPage s) \<le> totalPages s"
    using assms(2) t by (simp_all add: prevPage_def nextPage_def)
  have d: "page s \<le> totalPages s \<longrightarrow> page (prevPage s) \<le> totalPages s"
    using t by (simp add: prevPage_def)
  have e: "page s = 1 \<longrightarrow> page (prevPage s) = 1"
    by (simp add: prevPage_def)
  have f: "page s = totalPages s \<longrightarrow> page (nextPage s) = totalPages s"
    by (simp add: nextPage_def)
  have g: "\<forall>ls n early late w. session ls n early late = Inr w \<longrightarrow> page_in_range w"
    using session_page_in_range by blast
  show ?thesis
    using a b c d e f g concat_pages [OF assms(1)] by blast
qed

theorem pages_partition_subset_witness:
  "pageSize state_page2 = 10 \<and> 1 \<le> page state_page2
   \<and> paginate state_page2 (filtered state_page2) = map sample_question [''k'', ''l'']
   \<and> totalPages state_page2 = 2
   \<and> page (prevPage state_page2) = 1
   \<and> page (nextPage state_page2) = 2
   \<and> concat (map (\<lambda>p. paginate (state_page2\<lparr>page := int p\<rparr>) (filtered state_page2))
                [1..<Suc (nat (totalPages state_page2))]) = filtered state_page2
   \<and> (\<exists>w. session Map.empty static_host [NextPage] [NextPage, PrevPage] = Inr w
          \<and> page_in_range w)"
proof -
  have h1: "pageSize state_page2 = 10" and h2: "1 \<le> page state_page2"
    by (simp_all add: state_page2_def)
  have tp: "totalPages state_page2 = 2"
    by (simp add: totalPages_int [OF h1]) (simp add: state_page2_def twelve_def)
  note th = pages_partition_subset [OF h1 h2]
  have "paginate state_page2 (filtered state_page2) = map sample_question [''k'', ''l'']"
    using th by (simp add: state_page2_def twelve_def)
  moreover have "page (prevPage state_page2) = 1" "page (nextPage state_page2) = 2"
    using tp by (simp_all add: prevPage_def nextPage_def state_page2_def)
  moreover have "concat (map (\<lambda>p. paginate (state_page2\<lparr>page := int p\<rparr>) (filtered state_page2))
                   [1..<Suc (nat (totalPages state_page2))]) = filtered state_page2"
    using th by blast
  moreover have "\<exists>w. session Map.empty static_host [NextPage] [NextPage, PrevPage] = Inr w
                   \<and> page_in_range w"
  proof -
    obtain w where "session Map.empty static_host [NextPage] [NextPage, PrevPage] = Inr w"
      using session_returns [of Map.empty] load_nothing_stored by blast
    then show ?thesis using th by blast
  qed
  ultimately show ?thesis
    using h1 h2 tp by blast
qed

end
